theory Spec2Isabelle
  imports Complex_Main "HOL-Library.Log_Nat"
begin

section \<open>The happiestbaby-api client: data\<close>

text \<open>
  The client is asynchronous Python on a single event loop. The embedding is sequential:
  every function of the source takes the state of the client and the environment it talks
  to, and returns its result (an exception of the source is the left summand) with the
  state it leaves. A name of the source that starts with an underscore is written with
  the prefix \<open>u_\<close> (\<open>_send_request\<close> is \<open>u_send_request\<close>). The messages carried by
  the exceptions and the text given to the logger are left out.
\<close>

subsection \<open>Time\<close>

text \<open>
  A \<open>datetime\<close> is a count of microseconds, which is the resolution of Python's
  \<open>datetime\<close>; \<open>timedelta(seconds=n)\<close> is \<open>n\<close> million of them.
\<close>

type_synonym datetime = int

definition timedelta_seconds :: "int \<Rightarrow> int" where
  "timedelta_seconds n = n * 1000000"

subsection \<open>Exceptions\<close>

text \<open>
  \<open>RequestError\<close>, \<open>AuthenticationError\<close> and \<open>InvalidCredentialsError\<close> are the
  library's own; \<open>ClientResponseError\<close> (with its HTTP status) and \<open>ClientError\<close> are
  aiohttp's, the first a subclass of the second; the others are Python's.
\<close>

datatype error =
    RequestError
  | AuthenticationError
  | InvalidCredentialsError
  | ClientResponseError int
  | ClientError
  | ValueError
  | TypeError
  | KeyError
  | AttributeError
  | OverflowError

subsection \<open>JSON values\<close>

datatype json =
    JNull
  | JBool bool
  | JInt int
  | JStr string
  | JList "json list"
  | JDict "(string \<times> json) list"

text \<open>\<open>d.get(k)\<close> on a dictionary: \<open>None\<close> for a missing key and for a stored null.\<close>

definition dict_get :: "(string \<times> json) list \<Rightarrow> string \<Rightarrow> json option" where
  "dict_get d k = (case map_of d k of None \<Rightarrow> None | Some JNull \<Rightarrow> None | Some v \<Rightarrow> Some v)"

text \<open>\<open>k in d\<close> on a dictionary.\<close>

definition dict_has :: "(string \<times> json) list \<Rightarrow> string \<Rightarrow> bool" where
  "dict_has d k = (k \<in> set (map fst d))"

section \<open>Transport (request.py)\<close>

text \<open>
  What one call of \<open>websession.request(..., raise_for_status=True)\<close> does: it returns a
  response, or raises \<open>ClientResponseError\<close> with a status, or raises another
  \<open>ClientError\<close>. A response carries its body already parsed, \<open>None\<close> when
  \<open>resp.json()\<close> would raise \<open>JSONDecodeError\<close>.
\<close>

datatype 'b attempt =
    Responded "'b option"
  | ResponseFailed int
  | ConnectionFailed

text \<open>
  A session answers its calls in order: \<open>ws i\<close> is the outcome of the call number \<open>i\<close>
  made on it and the time that passes until it is known.
\<close>

type_synonym 'b websession = "nat \<Rightarrow> 'b attempt \<times> nat"

text \<open>
  What is sent: method, URL, the Authorization header, and the body, which is either
  \<open>data\<close> (the value whose JSON text is sent) or \<open>json\<close>. The other arguments
  (\<open>params\<close>, further headers, \<open>allow_redirects\<close>) are handed on unchanged by
  every layer and are left out.
\<close>

record sent =
  s_method :: string
  s_url :: string
  s_authorization :: "string option"
  s_data :: "json option"
  s_json :: "json option"

text \<open>What the client does that the outside can see, in order.\<close>

datatype event =
    Slept nat
  | Sent sent
  | CognitoPosted "string option" "string option"

definition DEFAULT_REQUEST_RETRIES :: nat where
  "DEFAULT_REQUEST_RETRIES = 5"

text \<open>
  The loop of \<open>_send_request\<close>. \<open>i\<close> is the number of the session's next call,
  \<open>attempt\<close> and \<open>resp_exc\<close> are the loop's variables; the result comes with the events
  of the loop and the time they took.
\<close>

function u_send_request_loop ::
  "'b websession \<Rightarrow> sent \<Rightarrow> nat \<Rightarrow> nat \<Rightarrow> error option \<Rightarrow> (error + 'b option) \<times> event list \<times> nat"
where
  "u_send_request_loop ws rq i attempt resp_exc =
     (if attempt < DEFAULT_REQUEST_RETRIES then
        let wait_for = min (2 ^ attempt) 5;
            slept = (if attempt \<noteq> 0 then [Slept wait_for] else []);
            waited = (if attempt \<noteq> 0 then wait_for * 1000000 else 0);
            took = waited + snd (ws i)
        in (case fst (ws i) of
              Responded b \<Rightarrow> (Inr b, slept @ [Sent rq], took)
            | ResponseFailed status \<Rightarrow>
                if status = 401 then (Inl (ClientResponseError status), slept @ [Sent rq], took)
                else (case u_send_request_loop ws rq (i + 1) (attempt + 1)
                             (Some (ClientResponseError status)) of
                        (r, evs, t) \<Rightarrow> (r, slept @ [Sent rq] @ evs, took + t))
            | ConnectionFailed \<Rightarrow>
                (case u_send_request_loop ws rq (i + 1) (attempt + 1) (Some ClientError) of
                   (r, evs, t) \<Rightarrow> (r, slept @ [Sent rq] @ evs, took + t)))
      else (case resp_exc of
              Some e \<Rightarrow> (Inl e, [], 0)
            | None \<Rightarrow> (Inl RequestError, [], 0)))"
  by pat_completeness auto
termination
  by (relation "measure (\<lambda>(ws, rq, i, attempt, resp_exc). DEFAULT_REQUEST_RETRIES - attempt)") auto

declare u_send_request_loop.simps [simp del]

definition u_send_request ::
  "'b websession \<Rightarrow> sent \<Rightarrow> nat \<Rightarrow> (error + 'b option) \<times> event list \<times> nat"
where
  "u_send_request ws rq i = u_send_request_loop ws rq i 0 None"

text \<open>The waits among the events, and the number of calls made.\<close>

fun sleeps :: "event list \<Rightarrow> nat list" where
  "sleeps [] = []"
| "sleeps (Slept n # evs) = n # sleeps evs"
| "sleeps (_ # evs) = sleeps evs"

fun sends :: "event list \<Rightarrow> sent list" where
  "sends [] = []"
| "sends (Sent rq # evs) = rq # sends evs"
| "sends (_ # evs) = sends evs"

text \<open>
  \<open>request_json\<close> parses the body of the response and \<open>request_response\<close> hands
  back no data. Both return the response too, which no caller reads.
\<close>

definition request_json ::
  "'b websession \<Rightarrow> sent \<Rightarrow> nat \<Rightarrow> (error + 'b option) \<times> event list \<times> nat"
where
  "request_json ws rq i =
     (case u_send_request ws rq i of
        (Inl e, evs, t) \<Rightarrow> (Inl e, evs, t)
      | (Inr None, evs, t) \<Rightarrow> (Inl RequestError, evs, t)
      | (Inr (Some d), evs, t) \<Rightarrow> (Inr (Some d), evs, t))"

definition request_response ::
  "'b websession \<Rightarrow> sent \<Rightarrow> nat \<Rightarrow> (error + 'b option) \<times> event list \<times> nat"
where
  "request_response ws rq i =
     (case u_send_request ws rq i of
        (Inl e, evs, t) \<Rightarrow> (Inl e, evs, t)
      | (Inr b, evs, t) \<Rightarrow> (Inr None, evs, t))"

definition REQUEST_METHODS :: "(string \<times> string) list" where
  "REQUEST_METHODS = [(''json'', ''request_json''), (''response'', ''request_response'')]"

text \<open>\<open>getattr(self._snoorequests, call_method)\<close> for the two names of the table.\<close>

definition getattr_snoorequests ::
  "string \<Rightarrow> 'b websession \<Rightarrow> sent \<Rightarrow> nat \<Rightarrow> (error + 'b option) \<times> event list \<times> nat"
where
  "getattr_snoorequests name =
     (if name = ''request_json'' then request_json else request_response)"

text \<open>An outcome after which the loop goes on.\<close>

fun retryable :: "'b attempt \<Rightarrow> bool" where
  "retryable (Responded b) = False"
| "retryable (ResponseFailed status) = (status \<noteq> 401)"
| "retryable ConnectionFailed = True"

text \<open>The exception a failed call raises.\<close>

fun raised :: "'b attempt \<Rightarrow> error" where
  "raised (ResponseFailed status) = ClientResponseError status"
| "raised _ = ClientError"

section \<open>The client (api.py)\<close>

subsection \<open>Constants (const.py)\<close>

definition BASE_ENDPOINT :: string where
  "BASE_ENDPOINT = ''https://api-us-east-1-prod.happiestbaby.com''"

definition REFRESH_URI :: string where
  "REFRESH_URI = ''/us/v2/refresh''"

definition DEVICES_URI :: string where
  "DEVICES_URI = ''/me/devices''"

definition ACCOUNT_URI :: string where
  "ACCOUNT_URI = ''/us/me''"

definition BABY_URI :: string where
  "BABY_URI = ''/us/v3/me/baby''"

definition SESSION_URI :: string where
  "SESSION_URI = ''/analytics/sessions/last''"

definition DEVICE_CONFIGS_URI :: "string \<Rightarrow> string" where
  "DEVICE_CONFIGS_URI serial_number = ''/ds/devices/'' @ serial_number @ ''/configs''"

definition BABIES_URI :: string where
  "BABIES_URI = ''/us/me/v10/babies''"

definition ACCOUNT_V10_URI :: string where
  "ACCOUNT_V10_URI = ''/us/me/v10/me''"

definition DEVICES_V11_URI :: string where
  "DEVICES_V11_URI = ''/hds/me/v11/devices''"

definition JOURNALS_CREATE_URI :: string where
  "JOURNALS_CREATE_URI = ''/cs/me/v11/journals''"

definition DEFAULT_DEVICE_UPDATE_INTERVAL :: int where
  "DEFAULT_DEVICE_UPDATE_INTERVAL = timedelta_seconds 120"

definition DEFAULT_TOKEN_REFRESH :: int where
  "DEFAULT_TOKEN_REFRESH = 1 * 60 * 60"

subsection \<open>The replies of the two login endpoints\<close>

text \<open>
  The replies of the identity provider and of the refresh endpoint are given with the
  fields the code reads, each absent or of the type the code expects; a reply of another
  shape is not modelled. The text of the identity provider's reply is not JSON
  (\<open>json.loads\<close> raises a \<open>ValueError\<close>), or an object without the key
  \<open>AuthenticationResult\<close>, or one with it.
\<close>

record auth_result =
  IdToken :: "string option"
  RefreshToken :: "string option"
  ExpiresIn :: "int option"
  TokenType :: "string option"

datatype cognito_body =
    NotJson
  | NoAuthenticationResult
  | AuthenticationResult auth_result

text \<open>\<open>session.post\<close> raises a \<open>ClientError\<close>, or gives a status and a text.\<close>

datatype cognito_reply =
    CognitoFailed
  | CognitoReplied int cognito_body

text \<open>
  \<open>expires_in\<close> of the refresh endpoint is a number, or a text that \<open>int\<close> reads as
  a number or rejects with a \<open>ValueError\<close>.
\<close>

datatype expires_in = Number int | Text "int option"

record refresh_reply =
  r_token_type :: "string option"
  r_access_token :: "string option"
  r_refresh_token :: "string option"
  r_expires_in :: "expires_in option"

subsection \<open>State\<close>

text \<open>
  An authentication task runs \<open>_authenticate\<close>. The coroutine reads the stored expiry
  when it starts, which decides what it does; it ends when its network call has been
  answered. Between the two the client may run on, so a task that is under way keeps what
  it decided, and a task that has ended keeps the exception it ended with, if any.
\<close>

datatype job = FreshLogin | RefreshExchange "string option"

datatype task = Running job | Finished "error option"

text \<open>
  A log of the tasks, beside the state of the client: \<open>asyncio.create_task\<close> adds
  \<open>Created\<close> to it, and the end of a task's coroutine adds \<open>Ended\<close>.
\<close>

datatype task_event = Created | Ended

text \<open>
  The serial number of a device is what the device list gives under \<open>serialNumber\<close>:
  a text, a number or a truth value (an entry without one is passed over, and a list or
  a dictionary is no key of a Python dictionary). As keys of a dictionary \<open>True\<close> and
  \<open>1\<close> are the same, and so are \<open>False\<close> and \<open>0\<close>; \<open>key\<close> is the key that stands
  for a serial number. A JSON number with a fraction is not modelled.
\<close>

datatype serial = SStr string | SInt int | SBool bool

fun key :: "serial \<Rightarrow> serial" where
  "key (SBool b) = SInt (if b then 1 else 0)"
| "key s = s"

text \<open>
  \<open>None\<close> for no serial number, \<open>TypeError\<close> for a value that cannot be hashed.
\<close>

fun serial_of :: "json \<Rightarrow> error + serial option" where
  "serial_of JNull = Inr None"
| "serial_of (JStr s) = Inr (Some (SStr s))"
| "serial_of (JInt n) = Inr (Some (SInt n))"
| "serial_of (JBool b) = Inr (Some (SBool b))"
| "serial_of (JList xs) = Inl TypeError"
| "serial_of (JDict d) = Inl TypeError"

text \<open>The text that \<open>str.format\<close> and an f-string put for a serial number.\<close>

function decimal :: "nat \<Rightarrow> string" where
  "decimal n =
     (if n < 10 then [''0123456789'' ! n]
      else decimal (n div 10) @ [''0123456789'' ! (n mod 10)])"
  by pat_completeness auto
termination
  by (relation "measure id") auto

declare decimal.simps [simp del]

fun format_serial :: "serial \<Rightarrow> string" where
  "format_serial (SStr s) = s"
| "format_serial (SInt n) = (if n < 0 then CHR ''-'' # decimal (nat (- n)) else decimal (nat n))"
| "format_serial (SBool b) = (if b then ''True'' else ''False'')"

text \<open>
  Modelled from the spec: \<open>SnooDevice\<close> (device.py is not among the sources). A
  device has its serial number as its identity, which is its \<open>device_id\<close>; it holds the
  entry of the device list that it was made from or last updated with, the baby it
  belongs to, its config blob, its last session blob and the time of the refresh cycle
  that touched it last.
\<close>

record snoo_device =
  d_device_id :: serial
  device :: json
  d_baby :: json
  config :: json
  session :: json
  device_state_update :: "datetime option"

text \<open>
  The environment: what the vendor's service answers to the calls on the client's own
  session and on the sessions that \<open>_refresh_token\<close> opens, what the identity provider
  answers (each with the time it takes), and whether an authentication task that is under
  way ends while the gateway waits for the answer to its dispatch number \<open>n\<close>.
\<close>

record env =
  main_session :: "json websession"
  refresh_session :: "refresh_reply websession"
  cognito :: "nat \<Rightarrow> cognito_reply \<times> nat"
  background :: "nat \<Rightarrow> bool"

text \<open>
  The fields of \<open>API\<close>, with the log of the tasks after the task's slot, then the
  clock, the events so far and the number of calls made to each part of the environment. \<open>security_token\<close> is the tuple of the source:
  bearer token, refresh token, expiry, time of the last refresh.
\<close>

record state =
  username :: "string option"
  password :: "string option"
  authentication_task :: "task option"
  tasks :: "task_event list"
  invalid_credentials :: bool
  security_token :: "string option \<times> string option \<times> datetime option \<times> datetime option"
  account :: json
  baby :: json
  devices :: "(serial \<times> snoo_device) list"
  last_state_update :: "datetime option"
  clock :: datetime
  trace :: "event list"
  main_calls :: nat
  refresh_calls :: nat
  cognito_calls :: nat
  dispatches :: nat

text \<open>\<open>API.__init__\<close>, at a given time.\<close>

definition init :: "string option \<Rightarrow> string option \<Rightarrow> datetime \<Rightarrow> state" where
  "init user pass now =
     \<lparr>username = user, password = pass, authentication_task = None, tasks = [],
      invalid_credentials = False, security_token = (None, None, None, None),
      account = JNull, baby = JNull, devices = [], last_state_update = None,
      clock = now, trace = [], main_calls = 0, refresh_calls = 0, cognito_calls = 0,
      dispatches = 0\<rparr>"

text \<open>The setters of \<open>username\<close> and \<open>password\<close>.\<close>

definition set_username :: "string option \<Rightarrow> state \<Rightarrow> state" where
  "set_username user st = st\<lparr>invalid_credentials := False, username := user\<rparr>"

definition set_password :: "string option \<Rightarrow> state \<Rightarrow> state" where
  "set_password pass st = st\<lparr>invalid_credentials := False, password := pass\<rparr>"

text \<open>The events of a call on a session go to the trace, and its time to the clock.\<close>

definition record_main :: "event list \<Rightarrow> nat \<Rightarrow> state \<Rightarrow> state" where
  "record_main evs t st =
     st\<lparr>trace := trace st @ evs, clock := clock st + int t,
        main_calls := main_calls st + length (sends evs)\<rparr>"

definition record_refresh :: "event list \<Rightarrow> nat \<Rightarrow> state \<Rightarrow> state" where
  "record_refresh evs t st =
     st\<lparr>trace := trace st @ evs, clock := clock st + int t,
        refresh_calls := refresh_calls st + length (sends evs)\<rparr>"

subsection \<open>Credential Manager\<close>

text \<open>
  \<open>int(expires / 2)\<close>: the quotient as a float, cut towards zero. For a lifetime below
  \<open>2 ^ 53\<close> in size the float is exact; a larger one gives a \<open>timedelta\<close> that no
  \<open>datetime\<close> can take, as the exact half does.
\<close>

definition int_half :: "int \<Rightarrow> int" where
  "int_half expires = (if 0 \<le> expires then expires div 2 else - ((- expires) div 2))"

text \<open>
  \<open>datetime + timedelta\<close> raises \<open>OverflowError\<close> outside the years 1 to 9999, here
  in microseconds since 1970.
\<close>

definition datetime_min :: int where
  "datetime_min = - 62135596800000000"

definition datetime_max :: int where
  "datetime_max = 253402300799999999"

definition datetime_plus :: "datetime \<Rightarrow> int \<Rightarrow> error + datetime" where
  "datetime_plus t d =
     (if datetime_min \<le> t + d \<and> t + d \<le> datetime_max then Inr (t + d) else Inl OverflowError)"

definition u_api_authenticate ::
  "env \<Rightarrow> state \<Rightarrow> (error + string \<times> string option \<times> int) \<times> state"
where
  "u_api_authenticate env st =
     (let reply = fst (cognito env (cognito_calls st));
          took = snd (cognito env (cognito_calls st));
          st' = st\<lparr>trace := trace st @ [CognitoPosted (username st) (password st)],
                   clock := clock st + int took,
                   cognito_calls := cognito_calls st + 1\<rparr>
      in (case reply of
            CognitoFailed \<Rightarrow> (Inl RequestError, st')
          | CognitoReplied status body \<Rightarrow>
              if status \<noteq> 200 then (Inl RequestError, st')
              else (case body of
                      NotJson \<Rightarrow> (Inl ValueError, st')
                    | NoAuthenticationResult \<Rightarrow> (Inl AuthenticationError, st')
                    | AuthenticationResult auth_result \<Rightarrow>
                        let id_token = IdToken auth_result;
                            refresh_token = RefreshToken auth_result;
                            expires_in = (case ExpiresIn auth_result of
                                            None \<Rightarrow> DEFAULT_TOKEN_REFRESH
                                          | Some n \<Rightarrow> n);
                            token_type = (case TokenType auth_result of
                                            None \<Rightarrow> ''Bearer''
                                          | Some t \<Rightarrow> t)
                        in (case id_token of
                              None \<Rightarrow> (Inl AuthenticationError, st')
                            | Some tok \<Rightarrow>
                                if tok = [] then (Inl AuthenticationError, st')
                                else (Inr (token_type @ '' '' @ tok, refresh_token, expires_in),
                                      st')))))"

text \<open>
  The branch of \<open>request\<close> for \<open>login_request=True\<close>, on any session: no lock, no
  token, and the two aiohttp exceptions become a \<open>RequestError\<close>.
\<close>

definition request_login ::
  "string \<Rightarrow> 'b websession \<Rightarrow> sent \<Rightarrow> nat \<Rightarrow> (error + 'b option) \<times> event list \<times> nat"
where
  "request_login returns ws rq i =
     (case map_of REQUEST_METHODS returns of
        None \<Rightarrow> (Inl RequestError, [], 0)
      | Some call_method \<Rightarrow>
          (case getattr_snoorequests call_method ws rq i of
             (Inl (ClientResponseError status), evs, t) \<Rightarrow> (Inl RequestError, evs, t)
           | (Inl ClientError, evs, t) \<Rightarrow> (Inl RequestError, evs, t)
           | (r, evs, t) \<Rightarrow> (r, evs, t)))"

text \<open>\<open>str\<close> of a text that may be \<open>None\<close>, as an f-string prints it.\<close>

definition str_of :: "string option \<Rightarrow> string" where
  "str_of x = (case x of None \<Rightarrow> ''None'' | Some s \<Rightarrow> s)"

definition u_refresh_token ::
  "env \<Rightarrow> string option \<Rightarrow> state \<Rightarrow> (error + string \<times> string option \<times> int) \<times> state"
where
  "u_refresh_token env stored st =
     (case request_login ''json'' (refresh_session env)
             \<lparr>s_method = ''post'', s_url = BASE_ENDPOINT @ REFRESH_URI,
              s_authorization = None,
              s_data = Some (JDict [(''refresh_token'',
                                     case stored of None \<Rightarrow> JNull | Some r \<Rightarrow> JStr r)]),
              s_json = None\<rparr>
             (refresh_calls st) of
        (r, evs, t) \<Rightarrow>
          let st' = record_refresh evs t st
          in (case r of
                Inl e \<Rightarrow> (Inl e, st')
              | Inr None \<Rightarrow> (Inl AttributeError, st')
              | Inr (Some data) \<Rightarrow>
                  let token = str_of (r_token_type data) @ '' '' @ str_of (r_access_token data);
                      refresh_token = r_refresh_token data;
                      expires = (case r_expires_in data of
                                   None \<Rightarrow> DEFAULT_TOKEN_REFRESH
                                 | Some (Number n) \<Rightarrow> n
                                 | Some (Text (Some n)) \<Rightarrow> n
                                 | Some (Text None) \<Rightarrow> DEFAULT_TOKEN_REFRESH * 2);
                      expires' = (if expires < DEFAULT_TOKEN_REFRESH * 2
                                  then DEFAULT_TOKEN_REFRESH * 2 else expires)
                  in (Inr (token, refresh_token, expires'), st')))"

text \<open>
  \<open>_authenticate\<close>, in the two parts a task runs it in: the test of the stored expiry
  when the task starts, and the rest when its network call is answered. After a refresh
  exchange the coroutine returns; after a fresh login it stores the new tuple. The token
  of \<open>_api_authenticate\<close> is always a text, so the test \<open>token is None\<close> never holds.
\<close>

definition u_authenticate_branch :: "state \<Rightarrow> job" where
  "u_authenticate_branch st =
     (case security_token st of
        (token, refresh_token, expires, refreshed) \<Rightarrow>
          (case expires of
             None \<Rightarrow> FreshLogin
           | Some e \<Rightarrow> if e < clock st then RefreshExchange refresh_token else FreshLogin))"

definition u_authenticate :: "env \<Rightarrow> job \<Rightarrow> state \<Rightarrow> (error + unit) \<times> state" where
  "u_authenticate env j st =
     (case j of
        RefreshExchange stored \<Rightarrow>
          (case u_refresh_token env stored st of
             (Inl e, st') \<Rightarrow> (Inl e, st')
           | (Inr (token, refresh_token, expires), st') \<Rightarrow> (Inr (), st'))
      | FreshLogin \<Rightarrow>
          (case u_api_authenticate env st of
             (Inl e, st') \<Rightarrow> (Inl e, st')
           | (Inr (token, refresh_token, expires), st') \<Rightarrow>
               (case datetime_plus (clock st') (timedelta_seconds (int_half expires)) of
                  Inl e \<Rightarrow> (Inl e, st')
                | Inr expiry \<Rightarrow>
                    (Inr (),
                     st'\<lparr>security_token :=
                          (Some token, refresh_token, Some expiry, Some (clock st'))\<rparr>))))"

text \<open>A task that is under way ends: its coroutine runs to its end.\<close>

definition finish_task :: "env \<Rightarrow> state \<Rightarrow> state" where
  "finish_task env st =
     (case authentication_task st of
        Some (Running j) \<Rightarrow>
          (case u_authenticate env j st of
             (Inl e, st') \<Rightarrow>
               st'\<lparr>authentication_task := Some (Finished (Some e)),
                   tasks := tasks st' @ [Ended]\<rparr>
           | (Inr u, st') \<Rightarrow>
               st'\<lparr>authentication_task := Some (Finished None), tasks := tasks st' @ [Ended]\<rparr>)
      | _ \<Rightarrow> st)"

text \<open>
  \<open>authenticate\<close>. Awaiting the task lets it end and raises what it raised; the result
  is the task left in the slot.
\<close>

definition authenticate :: "env \<Rightarrow> bool \<Rightarrow> state \<Rightarrow> (error + task option) \<times> state" where
  "authenticate env wait st =
     (if username st = None \<or> password st = None then (Inl InvalidCredentialsError, st)
      else if invalid_credentials st then (Inl InvalidCredentialsError, st)
      else
        let st1 = (if authentication_task st = None
                   then st\<lparr>authentication_task := Some (Running (u_authenticate_branch st)),
                           tasks := tasks st @ [Created]\<rparr>
                   else st)
        in if wait then
             let st2 = finish_task env st1
             in (case authentication_task st2 of
                   Some (Finished (Some e)) \<Rightarrow>
                     if e = RequestError \<or> e = AuthenticationError
                     then (Inl AuthenticationError, st2\<lparr>authentication_task := None\<rparr>)
                     else (Inl e, st2)
                 | _ \<Rightarrow> (Inr None, st2\<lparr>authentication_task := None\<rparr>))
           else (Inr (authentication_task st1), st1))"

subsection \<open>Request Gateway\<close>

text \<open>
  \<open>request\<close> below is what one caller does from its call to its return, with the lock
  free when it gets there; callers that meet at the lock come after it. The data of a
  reply is a JSON value, \<open>JNull\<close> for Python's \<open>None\<close>.
\<close>

definition data_of :: "error + json option \<Rightarrow> error + json" where
  "data_of r = (case r of Inl e \<Rightarrow> Inl e | Inr None \<Rightarrow> Inr JNull | Inr (Some d) \<Rightarrow> Inr d)"

text \<open>
  \<open>await call_method(...)\<close> under the lock: while the gateway waits, a task that is under
  way may end.
\<close>

definition dispatch :: "env \<Rightarrow> string \<Rightarrow> sent \<Rightarrow> state \<Rightarrow> (error + json) \<times> state" where
  "dispatch env call_method rq st =
     (let st0 = (if background env (dispatches st) then finish_task env st else st)
      in (case getattr_snoorequests call_method (main_session env) rq (main_calls st0) of
            (r, evs, t) \<Rightarrow>
              (data_of r, (record_main evs t st0)\<lparr>dispatches := dispatches st0 + 1\<rparr>)))"

text \<open>The first step under the lock: a task that has ended is taken out of the slot.\<close>

definition harvest :: "env \<Rightarrow> state \<Rightarrow> (error + unit) \<times> state" where
  "harvest env st =
     (if authentication_task st \<noteq> None then
        (case authenticate env False st of
           (Inl e, st') \<Rightarrow> (Inl e, st')
         | (Inr authentication_task', st') \<Rightarrow>
             (case authentication_task' of
                Some (Finished res) \<Rightarrow>
                  (case res of
                     None \<Rightarrow> (Inr (), st'\<lparr>authentication_task := None\<rparr>)
                   | Some e \<Rightarrow>
                       if e = RequestError \<or> e = AuthenticationError
                       then (Inr (), st'\<lparr>authentication_task := None\<rparr>)
                       else (Inl e, st'\<lparr>authentication_task := None\<rparr>))
              | _ \<Rightarrow> (Inr (), st')))
      else (Inr (), st))"

text \<open>The second step: the token is refreshed when its expiry is unset or reached.\<close>

definition check_token :: "env \<Rightarrow> state \<Rightarrow> (error + unit) \<times> state" where
  "check_token env st =
     (case security_token st of
        (token, refresh_token, expires, refreshed) \<Rightarrow>
          if (case expires of None \<Rightarrow> True | Some e \<Rightarrow> e \<le> clock st) then
            (case token of
               None \<Rightarrow>
                 (case authenticate env True st of
                    (Inl e, st') \<Rightarrow> (Inl e, st')
                  | (Inr t, st') \<Rightarrow> (Inr (), st'))
             | Some tok \<Rightarrow>
                 (case authenticate env False st of
                    (Inl e, st') \<Rightarrow> (Inl e, st')
                  | (Inr t, st') \<Rightarrow> (Inr (), st')))
          else (Inr (), st))"

definition clear_token :: "state \<Rightarrow> state" where
  "clear_token st =
     (case security_token st of
        (token, refresh_token, expires, refreshed) \<Rightarrow>
          st\<lparr>security_token := (None, None, None, refreshed)\<rparr>)"

text \<open>The two outer \<open>except\<close> clauses of the dispatch.\<close>

definition on_error :: "env \<Rightarrow> error \<Rightarrow> state \<Rightarrow> (error + json) \<times> state" where
  "on_error env err st =
     (case err of
        ClientResponseError status \<Rightarrow>
          if status = 401 then
            (case authenticate env False (clear_token st) of
               (Inl e, st') \<Rightarrow> (Inl e, st')
             | (Inr t, st') \<Rightarrow> (Inl AuthenticationError, st'))
          else (Inl RequestError, st)
      | ClientError \<Rightarrow> (Inl RequestError, st)
      | _ \<Rightarrow> (Inl err, st))"

text \<open>
  The dispatch: the headers get the stored token once, before the first try, and the same
  headers go out again after a 401 and a new authentication.
\<close>

definition send_authorized ::
  "env \<Rightarrow> string \<Rightarrow> string \<Rightarrow> string \<Rightarrow> json option \<Rightarrow> json option \<Rightarrow> state
   \<Rightarrow> (error + json) \<times> state"
where
  "send_authorized env call_method method url data json st =
     (let headers = \<lparr>s_method = method, s_url = url,
                      s_authorization = fst (security_token st),
                      s_data = data, s_json = json\<rparr>
      in (case dispatch env call_method headers st of
            (Inr d, st1) \<Rightarrow> (Inr d, st1)
          | (Inl (ClientResponseError status), st1) \<Rightarrow>
              if status = 401 then
                (case authenticate env True (clear_token st1) of
                   (Inl e, st2) \<Rightarrow> (Inl e, st2)
                 | (Inr t, st2) \<Rightarrow>
                     (case dispatch env call_method headers st2 of
                        (Inr d, st3) \<Rightarrow> (Inr d, st3)
                      | (Inl e, st3) \<Rightarrow> on_error env e st3))
              else on_error env (ClientResponseError status) st1
          | (Inl e, st1) \<Rightarrow> on_error env e st1))"

definition request ::
  "env \<Rightarrow> string \<Rightarrow> string \<Rightarrow> string \<Rightarrow> json option \<Rightarrow> json option \<Rightarrow> bool \<Rightarrow> state
   \<Rightarrow> (error + json) \<times> state"
where
  "request env method returns url data json login_request st =
     (case map_of REQUEST_METHODS returns of
        None \<Rightarrow> (Inl RequestError, st)
      | Some call_method \<Rightarrow>
          if login_request then
            (case request_login returns (main_session env)
                    \<lparr>s_method = method, s_url = url, s_authorization = None,
                     s_data = data, s_json = json\<rparr>
                    (main_calls st) of
               (r, evs, t) \<Rightarrow> (data_of r, record_main evs t st))
          else
            (case harvest env st of
               (Inl e, st1) \<Rightarrow> (Inl e, st1)
             | (Inr u, st1) \<Rightarrow>
                 (case check_token env st1 of
                    (Inl e, st2) \<Rightarrow> (Inl e, st2)
                  | (Inr u', st2) \<Rightarrow> send_authorized env call_method method url data json st2)))"

text \<open>
  Several callers of the gateway. A call that is not a login request does nothing to the
  client before \<open>async with self._lock\<close> and returns as it leaves the block, so a
  caller is waiting for the lock, or holds it, or has returned. A caller takes the lock
  when it is free. While it holds the lock it is the only caller that runs: the others
  wait, and the authentication task, the only other activity, is part of \<open>request\<close>.
  The step of a caller that holds the lock is the whole body, followed by the release.
\<close>

record call =
  c_method :: string
  c_returns :: string
  c_url :: string
  c_data :: "json option"
  c_json :: "json option"

datatype caller = Waiting call | Holding call | Returned "error + json"

definition serve :: "env \<Rightarrow> call \<Rightarrow> state \<Rightarrow> (error + json) \<times> state" where
  "serve env c st =
     request env (c_method c) (c_returns c) (c_url c) (c_data c) (c_json c) False st"

inductive lock_step ::
  "env \<Rightarrow> bool \<times> caller list \<times> state \<Rightarrow> bool \<times> caller list \<times> state \<Rightarrow> bool"
  for env :: env
where
  acquire:
    "i < length cs \<Longrightarrow> cs ! i = Waiting c \<Longrightarrow>
     lock_step env (False, cs, st) (True, cs[i := Holding c], st)"
| release:
    "i < length cs \<Longrightarrow> cs ! i = Holding c \<Longrightarrow> serve env c st = (r, st') \<Longrightarrow>
     lock_step env (True, cs, st) (False, cs[i := Returned r], st')"

subsection \<open>Device Registry\<close>

text \<open>
  The f-strings given to the logger read \<open>self.account['givenName']\<close>, which raises when
  the account is not a dictionary or has no such key.
\<close>

definition given_name :: "state \<Rightarrow> error + unit" where
  "given_name st =
     (case account st of
        JDict d \<Rightarrow> if dict_has d ''givenName'' then Inr () else Inl KeyError
      | _ \<Rightarrow> Inl TypeError)"

definition get_account :: "env \<Rightarrow> state \<Rightarrow> (error + json) \<times> state" where
  "get_account env st =
     (case (case request env ''get'' ''json'' (BASE_ENDPOINT @ ACCOUNT_V10_URI) None None False st of
              (Inl e, st') \<Rightarrow>
                request env ''get'' ''json'' (BASE_ENDPOINT @ ACCOUNT_URI) None None False st'
            | (Inr accounts_resp, st') \<Rightarrow> (Inr accounts_resp, st')) of
        (Inl e, st') \<Rightarrow> (Inl e, st')
      | (Inr accounts_resp, st') \<Rightarrow>
          (case accounts_resp of
             JNull \<Rightarrow> (Inr JNull, st')
           | JDict d \<Rightarrow>
               (case dict_get d ''userId'' of
                  None \<Rightarrow> (Inr JNull, st')
                | Some account_id \<Rightarrow> (Inr accounts_resp, st'))
           | _ \<Rightarrow> (Inl AttributeError, st')))"

definition get_babies_v10 :: "env \<Rightarrow> state \<Rightarrow> (error + json) \<times> state" where
  "get_babies_v10 env st =
     request env ''get'' ''json'' (BASE_ENDPOINT @ BABIES_URI) None None False st"

text \<open>
  \<open>babies_resp[0]\<close> when \<open>babies_resp and len(babies_resp) > 0\<close>, else \<open>None\<close>; what
  Python raises on a value that has no length or no item 0 is caught by the caller.
\<close>

fun first_baby :: "json \<Rightarrow> error + json" where
  "first_baby JNull = Inr JNull"
| "first_baby (JBool b) = (if b then Inl TypeError else Inr JNull)"
| "first_baby (JInt n) = (if n \<noteq> 0 then Inl TypeError else Inr JNull)"
| "first_baby (JStr s) = (case s of [] \<Rightarrow> Inr JNull | c # cs \<Rightarrow> Inr (JStr [c]))"
| "first_baby (JList xs) = (case xs of [] \<Rightarrow> Inr JNull | x # rest \<Rightarrow> Inr x)"
| "first_baby (JDict d) = (case d of [] \<Rightarrow> Inr JNull | kv # rest \<Rightarrow> Inl KeyError)"

definition get_baby_for_account :: "env \<Rightarrow> state \<Rightarrow> (error + json) \<times> state" where
  "get_baby_for_account env st =
     (case given_name st of
        Inl e \<Rightarrow> (Inl e, st)
      | Inr u \<Rightarrow>
          (case (case get_babies_v10 env st of
                   (Inl e, st') \<Rightarrow> (Inl e, st')
                 | (Inr babies_resp, st') \<Rightarrow> (first_baby babies_resp, st')) of
             (Inr first, st') \<Rightarrow> (Inr first, st')
           | (Inl e, st') \<Rightarrow>
               request env ''get'' ''json'' (BASE_ENDPOINT @ BABY_URI) None None False st'))"

definition get_session_for_account :: "env \<Rightarrow> state \<Rightarrow> (error + json) \<times> state" where
  "get_session_for_account env st =
     (case given_name st of
        Inl e \<Rightarrow> (Inl e, st)
      | Inr u \<Rightarrow>
          request env ''get'' ''json'' (BASE_ENDPOINT @ SESSION_URI) None None False st)"

definition get_configs_for_device :: "env \<Rightarrow> string \<Rightarrow> state \<Rightarrow> (error + json) \<times> state" where
  "get_configs_for_device env serial_number st =
     request env ''get'' ''json'' (BASE_ENDPOINT @ DEVICE_CONFIGS_URI serial_number)
       None None False st"

text \<open>The devices are a dictionary in the order of insertion, keyed by serial number.\<close>

definition u_add_new_device :: "json \<Rightarrow> serial \<Rightarrow> state \<Rightarrow> state" where
  "u_add_new_device device_json serial_number st =
     st\<lparr>devices := devices st @
          [(key serial_number,
            \<lparr>d_device_id = serial_number, device = device_json, d_baby = baby st,
             config = JNull, session = JNull, device_state_update = None\<rparr>)]\<rparr>"

text \<open>An assignment to attributes of the device stored under a key.\<close>

definition update_device :: "serial \<Rightarrow> (snoo_device \<Rightarrow> snoo_device) \<Rightarrow> state \<Rightarrow> state" where
  "update_device k f st =
     st\<lparr>devices := map (\<lambda>(k', dv). if k' = k then (k', f dv) else (k', dv)) (devices st)\<rparr>"

text \<open>What \<open>for device_json in devices_resp\<close> goes through.\<close>

fun items_of :: "json \<Rightarrow> error + json list" where
  "items_of (JList xs) = Inr xs"
| "items_of (JDict d) = Inr (map (\<lambda>kv. JStr (fst kv)) d)"
| "items_of (JStr s) = Inr (map (\<lambda>c. JStr [c]) s)"
| "items_of x = Inl TypeError"

text \<open>
  The loop of \<open>_get_device_details\<close>. An entry that has no \<open>get\<close> raises
  \<open>AttributeError\<close>, a serial number that cannot be hashed raises \<open>TypeError\<close> at
  \<open>serial_number not in self.devices\<close>, and \<open>self.devices[serial_number]\<close> raises
  \<open>KeyError\<close> for a key that is not there.
\<close>

fun device_loop :: "env \<Rightarrow> datetime \<Rightarrow> json list \<Rightarrow> state \<Rightarrow> (error + unit) \<times> state" where
  "device_loop env ts [] st = (Inr (), st)"
| "device_loop env ts (device_json # rest) st =
     (case device_json of
        JDict d \<Rightarrow>
          (case (case dict_get d ''serialNumber'' of
                   None \<Rightarrow> Inr None
                 | Some v \<Rightarrow> serial_of v) of
             Inl e \<Rightarrow> (Inl e, st)
           | Inr None \<Rightarrow> device_loop env ts rest st
           | Inr (Some serial_number) \<Rightarrow>
               (let st1 = (if map_of (devices st) (key serial_number) = None
                           then u_add_new_device device_json serial_number st else st)
                in (case map_of (devices st1) (key serial_number) of
                      None \<Rightarrow> (Inl KeyError, st1)
                    | Some snoodevice \<Rightarrow>
                        (case get_configs_for_device env
                                (format_serial (d_device_id snoodevice)) st1 of
                           (Inl e, st2) \<Rightarrow> (Inl e, st2)
                         | (Inr config_json, st2) \<Rightarrow>
                             (case get_session_for_account env st2 of
                                (Inl e, st3) \<Rightarrow> (Inl e, st3)
                              | (Inr session_json, st3) \<Rightarrow>
                                  device_loop env ts rest
                                    (update_device (key serial_number)
                                       (\<lambda>dv. dv\<lparr>device := device_json, config := config_json,
                                                session := session_json,
                                                device_state_update := Some ts\<rparr>)
                                       st3))))))
      | other \<Rightarrow> (Inl AttributeError, st))"

definition u_get_device_details :: "env \<Rightarrow> state \<Rightarrow> (error + unit) \<times> state" where
  "u_get_device_details env st =
     (case given_name st of
        Inl e \<Rightarrow> (Inl e, st)
      | Inr u \<Rightarrow>
          (case (case request env ''get'' ''json'' (BASE_ENDPOINT @ DEVICES_V11_URI)
                        None None False st of
                   (Inl e, st') \<Rightarrow>
                     request env ''get'' ''json'' (BASE_ENDPOINT @ DEVICES_URI) None None False st'
                 | (Inr devices_resp, st') \<Rightarrow> (Inr devices_resp, st')) of
             (Inl e, st1) \<Rightarrow> (Inl e, st1)
           | (Inr devices_resp, st1) \<Rightarrow>
               (let device_state_update_timestmp = clock st1
                in (case devices_resp of
                      JNull \<Rightarrow> (Inr (), st1)
                    | other \<Rightarrow>
                        (case items_of devices_resp of
                           Inl e \<Rightarrow> (Inl e, st1)
                         | Inr xs \<Rightarrow> device_loop env device_state_update_timestmp xs st1)))))"

text \<open>The loop of the throttled path, over the keys of the devices.\<close>

fun session_loop :: "env \<Rightarrow> serial list \<Rightarrow> state \<Rightarrow> (error + unit) \<times> state" where
  "session_loop env [] st = (Inr (), st)"
| "session_loop env (device_id # rest) st =
     (case get_session_for_account env st of
        (Inl e, st') \<Rightarrow> (Inl e, st')
      | (Inr session_json, st') \<Rightarrow>
          session_loop env rest
            (update_device device_id (\<lambda>dv. dv\<lparr>session := session_json\<rparr>) st'))"

text \<open>
  The two statements \<open>if self.account is None: self.account = await self.get_account()\<close>
  and \<open>if self.baby is None: self.baby = await self.get_baby_for_account()\<close>.
\<close>

definition load_account :: "env \<Rightarrow> state \<Rightarrow> (error + unit) \<times> state" where
  "load_account env st =
     (if account st = JNull then
        (case get_account env st of
           (Inl e, st') \<Rightarrow> (Inl e, st')
         | (Inr a, st') \<Rightarrow> (Inr (), st'\<lparr>account := a\<rparr>))
      else (Inr (), st))"

definition load_baby :: "env \<Rightarrow> state \<Rightarrow> (error + unit) \<times> state" where
  "load_baby env st =
     (if baby st = JNull then
        (case get_baby_for_account env st of
           (Inl e, st') \<Rightarrow> (Inl e, st')
         | (Inr b, st') \<Rightarrow> (Inr (), st'\<lparr>baby := b\<rparr>))
      else (Inr (), st))"

definition update_device_info :: "env \<Rightarrow> state \<Rightarrow> (error + unit) \<times> state" where
  "update_device_info env st =
     (let call_dt = clock st;
          updated = (case last_state_update st of
                       None \<Rightarrow> call_dt - DEFAULT_DEVICE_UPDATE_INTERVAL
                     | Some l \<Rightarrow> l);
          st0 = st\<lparr>last_state_update := Some updated\<rparr>;
          next_available_call_dt = updated + DEFAULT_DEVICE_UPDATE_INTERVAL
      in if call_dt < next_available_call_dt then
           session_loop env (map fst (devices st0)) st0
         else
           (case load_account env st0 of
              (Inl e, st1) \<Rightarrow> (Inl e, st1)
            | (Inr u, st1) \<Rightarrow>
                (case load_baby env st1 of
                   (Inl e, st2) \<Rightarrow> (Inl e, st2)
                 | (Inr u', st2) \<Rightarrow>
                     (case u_get_device_details env st2 of
                        (Inl e, st3) \<Rightarrow> (Inl e, st3)
                      | (Inr u'', st3) \<Rightarrow>
                          (Inr (), st3\<lparr>last_state_update := Some (clock st3)\<rparr>)))))"

section \<open>Journal Client (journal.py)\<close>

subsection \<open>Python's floats\<close>

text \<open>
  A Python float is an IEEE 754 binary64 number; a finite one is taken as the rational
  number it stands for. \<open>rn q\<close> is the float nearest to \<open>q\<close>, ties to the even
  significand: 53 bits of significand, exponents from \<open>-1074\<close> up. Results too large
  for a float (Python's infinities) are not modelled: \<open>rn\<close> agrees with the hardware for
  \<open>\<bar>q\<bar> < 2 ^ 1024\<close>. A decimal literal of the source is \<open>rn\<close> of its value, \<open>x * y\<close> is
  \<open>rn\<close> of the product and \<open>x / y\<close> is \<open>rn\<close> of the quotient. \<open>round(x, 2)\<close> is
  computed by CPython from the shortest correctly rounded decimal: the exact value of
  \<open>x\<close> is rounded to two decimals, ties to even, and the float nearest to the result
  is returned.
\<close>

definition round_half_even :: "rat \<Rightarrow> int" where
  "round_half_even y =
     (let f = \<lfloor>y\<rfloor>; r = y - of_int f
      in if r < 1 / 2 then f else if 1 / 2 < r then f + 1 else if even f then f else f + 1)"

text \<open>For \<open>q > 0\<close>, the \<open>e\<close> with \<open>2 ^ e \<le> q < 2 ^ (e + 1)\<close>.\<close>

definition exponent :: "rat \<Rightarrow> int" where
  "exponent q =
     (if 1 \<le> q then bitlen \<lfloor>q\<rfloor> - 1
      else (let j = bitlen \<lfloor>1 / q\<rfloor> - 1 in if q * 2 powi j = 1 then - j else - j - 1))"

definition rn :: "rat \<Rightarrow> rat" where
  "rn q =
     (if q = 0 then 0
      else (let e = max (exponent \<bar>q\<bar> - 52) (- 1074)
            in of_int (round_half_even (q / 2 powi e)) * 2 powi e))"

definition fmul :: "rat \<Rightarrow> rat \<Rightarrow> rat" where
  "fmul x y = rn (x * y)"

definition fdiv :: "rat \<Rightarrow> rat \<Rightarrow> rat" where
  "fdiv x y = rn (x / y)"

definition round2 :: "rat \<Rightarrow> rat" where
  "round2 x = rn (of_int (round_half_even (x * 100)) / 100)"

subsection \<open>The two units of an entry\<close>

definition BOTTLE_FEEDING :: string where
  "BOTTLE_FEEDING = ''bottlefeeding''"

definition BREAST_FEEDING :: string where
  "BREAST_FEEDING = ''breastfeeding''"

definition FEEDING_TYPES :: "string list" where
  "FEEDING_TYPES = [''breastmilk'', ''formula'']"

text \<open>
  The statement \<open>if imperial is not None and metric is None: metric = round(imperial *
  factor, 2) elif metric is not None and imperial is None: imperial = round(metric /
  factor, 2)\<close>, which the four functions below share but for the factor, a literal of
  the source. The result is the two variables after it.
\<close>

definition fill_missing :: "rat \<Rightarrow> rat option \<Rightarrow> rat option \<Rightarrow> rat option \<times> rat option" where
  "fill_missing factor imperial metric =
     (case (imperial, metric) of
        (Some i, None) \<Rightarrow> (Some i, Some (round2 (fmul i factor)))
      | (None, Some m) \<Rightarrow> (Some (round2 (fdiv m factor)), Some m)
      | both \<Rightarrow> both)"

text \<open>
  The amounts that \<open>create_feeding_entry\<close> puts into the entry (none unless it is a
  bottle feeding), and the weights, heights and circumferences of
  \<open>create_weight_entry\<close>, \<open>create_height_entry\<close> and \<open>create_head_entry\<close>. Each
  function also looks up the user id when none is given and posts the entry; neither
  touches these values, and both are left out.
\<close>

definition create_feeding_entry_amounts ::
  "string \<Rightarrow> string \<Rightarrow> rat option \<Rightarrow> rat option \<Rightarrow> error + rat option \<times> rat option"
where
  "create_feeding_entry_amounts feeding_type milk_type amount_imperial amount_metric =
     (if feeding_type \<notin> set [BOTTLE_FEEDING, BREAST_FEEDING] then Inl ValueError
      else if milk_type \<notin> set FEEDING_TYPES then Inl ValueError
      else if feeding_type = BOTTLE_FEEDING then
        (if amount_imperial = None \<and> amount_metric = None then Inl ValueError
         else Inr (fill_missing (rn (295735 / 10000)) amount_imperial amount_metric))
      else Inr (None, None))"

definition create_weight_entry_weights ::
  "rat option \<Rightarrow> rat option \<Rightarrow> error + rat option \<times> rat option"
where
  "create_weight_entry_weights weight_imperial weight_metric =
     (if weight_imperial = None \<and> weight_metric = None then Inl ValueError
      else Inr (fill_missing (rn (283495 / 10000)) weight_imperial weight_metric))"

definition create_height_entry_heights ::
  "rat option \<Rightarrow> rat option \<Rightarrow> error + rat option \<times> rat option"
where
  "create_height_entry_heights height_imperial height_metric =
     (if height_imperial = None \<and> height_metric = None then Inl ValueError
      else Inr (fill_missing (rn (254 / 100)) height_imperial height_metric))"

definition create_head_entry_circumferences ::
  "rat option \<Rightarrow> rat option \<Rightarrow> error + rat option \<times> rat option"
where
  "create_head_entry_circumferences circumference_imperial circumference_metric =
     (if circumference_imperial = None \<and> circumference_metric = None then Inl ValueError
      else Inr (fill_missing (rn (254 / 100)) circumference_imperial circumference_metric))"

subsection \<open>Update of an entry\<close>

definition update_journal_entry ::
  "env \<Rightarrow> string \<Rightarrow> (string \<times> json) list \<Rightarrow> state \<Rightarrow> (error + json) \<times> state"
where
  "update_journal_entry env entry_id updates st =
     (let required_fields = [''type'', ''startTime'', ''babyId'', ''userId'', ''data''];
          is_complete = list_all (\<lambda>field. dict_has updates field) required_fields
      in if is_complete then
           request env ''put'' ''json'' (BASE_ENDPOINT @ JOURNALS_CREATE_URI @ ''/'' @ entry_id)
             None (Some (JDict updates)) False st
         else (Inl ValueError, st))"

section \<open>Notions used to state the properties\<close>

text \<open>What the loop of the transport ends with on an outcome it does not retry.\<close>

fun final :: "'b attempt \<Rightarrow> error + 'b option" where
  "final (Responded b) = Inr b"
| "final other = Inl (raised other)"

text \<open>The events of one turn of the loop, and of the turns with given values of \<open>attempt\<close>.\<close>

definition wait_events :: "nat \<Rightarrow> event list" where
  "wait_events attempt = (if attempt \<noteq> 0 then [Slept (min (2 ^ attempt) 5)] else [])"

definition attempts_events :: "sent \<Rightarrow> nat list \<Rightarrow> event list" where
  "attempts_events rq as = concat (map (\<lambda>a. wait_events a @ [Sent rq]) as)"

text \<open>The post that \<open>_refresh_token\<close> sends.\<close>

definition refresh_post :: "sent \<Rightarrow> bool" where
  "refresh_post rq \<longleftrightarrow> s_method rq = ''post'' \<and> s_url rq = BASE_ENDPOINT @ REFRESH_URI"

text \<open>
  What a call of the gateway may do to the state: it adds events to the trace, among
  them only sends that satisfy \<open>P\<close> and posts of the refresh exchange; time and the
  count of calls on the client's session go on; the credentials, the flag, the account,
  the baby, the devices and the time of the last full refresh stay.
\<close>

definition gateway_step :: "(sent \<Rightarrow> bool) \<Rightarrow> state \<Rightarrow> state \<Rightarrow> bool" where
  "gateway_step P st st' \<longleftrightarrow>
     (\<exists>evs. trace st' = trace st @ evs \<and> list_all (\<lambda>rq. P rq \<or> refresh_post rq) (sends evs)) \<and>
     clock st \<le> clock st' \<and> main_calls st \<le> main_calls st' \<and>
     username st' = username st \<and> password st' = password st \<and>
     invalid_credentials st' = invalid_credentials st \<and>
     account st' = account st \<and> baby st' = baby st \<and> devices st' = devices st \<and>
     last_state_update st' = last_state_update st"

text \<open>The same for a call of the registry, which may change what the registry holds.\<close>

definition registry_step :: "(sent \<Rightarrow> bool) \<Rightarrow> state \<Rightarrow> state \<Rightarrow> bool" where
  "registry_step P st st' \<longleftrightarrow>
     (\<exists>evs. trace st' = trace st @ evs \<and> list_all (\<lambda>rq. P rq \<or> refresh_post rq) (sends evs)) \<and>
     clock st \<le> clock st' \<and> main_calls st \<le> main_calls st' \<and>
     username st' = username st \<and> password st' = password st \<and>
     invalid_credentials st' = invalid_credentials st"

text \<open>The devices are the same but for their session blobs.\<close>

definition blobs_kept :: "state \<Rightarrow> state \<Rightarrow> bool" where
  "blobs_kept st st' \<longleftrightarrow>
     map (\<lambda>kd. (fst kd, device (snd kd), config (snd kd), d_baby (snd kd),
                 device_state_update (snd kd))) (devices st') =
     map (\<lambda>kd. (fst kd, device (snd kd), config (snd kd), d_baby (snd kd),
                 device_state_update (snd kd))) (devices st)"

text \<open>A GET of an endpoint with no body, and any GET.\<close>

definition get_of :: "string \<Rightarrow> sent \<Rightarrow> bool" where
  "get_of uri rq \<longleftrightarrow>
     s_method rq = ''get'' \<and> s_url rq = BASE_ENDPOINT @ uri \<and> s_data rq = None \<and>
     s_json rq = None"

definition any_get :: "sent \<Rightarrow> bool" where
  "any_get rq \<longleftrightarrow> s_method rq = ''get''"

text \<open>
  \<open>d\<close> is the body of a response that the client's session gave to one of its calls
  from number \<open>m\<close> up to, not including, number \<open>n\<close>.
\<close>

definition fetched :: "env \<Rightarrow> nat \<Rightarrow> nat \<Rightarrow> json \<Rightarrow> bool" where
  "fetched env m n d \<longleftrightarrow> (\<exists>j. m \<le> j \<and> j < n \<and> fst (main_session env j) = Responded (Some d))"

text \<open>\<open>rq\<close> was sent between two states.\<close>

definition sent_in :: "sent \<Rightarrow> state \<Rightarrow> state \<Rightarrow> bool" where
  "sent_in rq st st' \<longleftrightarrow> (\<exists>evs. trace st' = trace st @ evs \<and> Sent rq \<in> set evs)"

definition answered :: "env \<Rightarrow> sent \<Rightarrow> json \<Rightarrow> state \<Rightarrow> state \<Rightarrow> bool" where
  "answered env rq d st st' \<longleftrightarrow>
     fetched env (main_calls st) (main_calls st') d \<and> sent_in rq st st'"

text \<open>
  The states a client can be in: a newly made one, and the state after any operation on
  one of them, after the end of a task that was under way, and after time has passed.
\<close>

inductive reachable :: "env \<Rightarrow> state \<Rightarrow> bool" for env :: env where
  r_init: "reachable env (init user pass now)"
| r_set_username: "reachable env st \<Longrightarrow> reachable env (set_username user st)"
| r_set_password: "reachable env st \<Longrightarrow> reachable env (set_password pass st)"
| r_authenticate: "reachable env st \<Longrightarrow> reachable env (snd (authenticate env wait st))"
| r_request:
    "reachable env st \<Longrightarrow>
     reachable env (snd (request env method returns url data json login_request st))"
| r_get_account: "reachable env st \<Longrightarrow> reachable env (snd (get_account env st))"
| r_get_babies_v10: "reachable env st \<Longrightarrow> reachable env (snd (get_babies_v10 env st))"
| r_get_baby_for_account:
    "reachable env st \<Longrightarrow> reachable env (snd (get_baby_for_account env st))"
| r_get_session_for_account:
    "reachable env st \<Longrightarrow> reachable env (snd (get_session_for_account env st))"
| r_get_configs_for_device:
    "reachable env st \<Longrightarrow> reachable env (snd (get_configs_for_device env serial_number st))"
| r_get_device_details:
    "reachable env st \<Longrightarrow> reachable env (snd (u_get_device_details env st))"
| r_update_device_info:
    "reachable env st \<Longrightarrow> reachable env (snd (update_device_info env st))"
| r_update_journal_entry:
    "reachable env st \<Longrightarrow> reachable env (snd (update_journal_entry env entry_id updates st))"
| r_task_ends: "reachable env st \<Longrightarrow> reachable env (finish_task env st)"
| r_time_passes: "reachable env st \<Longrightarrow> reachable env (st\<lparr>clock := clock st + int d\<rparr>)"

text \<open>
  Between two states no authentication call was made and no task was created, no task is
  left and the token is the same.
\<close>

definition no_authentication :: "state \<Rightarrow> state \<Rightarrow> bool" where
  "no_authentication st st' \<longleftrightarrow>
     cognito_calls st' = cognito_calls st \<and> refresh_calls st' = refresh_calls st \<and>
     tasks st' = tasks st \<and> authentication_task st' = None \<and>
     security_token st' = security_token st \<and> clock st \<le> clock st'"

text \<open>
  A log in which tasks are created and end in turn, so that no task is created while
  another is under way; the flag tells whether one is under way at the start. A task is
  under way after a log that ends with \<open>Created\<close>.
\<close>

fun one_at_a_time :: "bool \<Rightarrow> task_event list \<Rightarrow> bool" where
  "one_at_a_time running [] = True"
| "one_at_a_time running (Created # es) = (\<not> running \<and> one_at_a_time True es)"
| "one_at_a_time running (Ended # es) = (running \<and> one_at_a_time False es)"

definition under_way :: "task_event list \<Rightarrow> bool" where
  "under_way es \<longleftrightarrow> es \<noteq> [] \<and> last es = Created"

text \<open>
  At most one task at any time: the tasks of the log were under way one at a time, and a
  task is under way now exactly when the slot holds a task that has not ended.
\<close>

definition one_task :: "state \<Rightarrow> bool" where
  "one_task st \<longleftrightarrow>
     one_at_a_time False (tasks st) \<and>
     (under_way (tasks st) \<longleftrightarrow> (\<exists>j. authentication_task st = Some (Running j)))"

text \<open>
  The four conversions of the Journal Client, each with the factor between its units:
  millilitres in a fluid ounce, grams in an ounce, centimetres in an inch.
\<close>

definition conversions ::
  "string \<Rightarrow> (rat \<times> (rat option \<Rightarrow> rat option \<Rightarrow> error + rat option \<times> rat option)) list"
where
  "conversions milk_type =
     [(rn (295735 / 10000), create_feeding_entry_amounts BOTTLE_FEEDING milk_type),
      (rn (283495 / 10000), create_weight_entry_weights),
      (rn (254 / 100), create_height_entry_heights),
      (rn (254 / 100), create_head_entry_circumferences)]"

section \<open>Example environments and states\<close>

text \<open>An environment in which nothing answers.\<close>

definition offline :: env where
  "offline =
     \<lparr>main_session = (\<lambda>i. (ConnectionFailed, 0)),
      refresh_session = (\<lambda>i. (ConnectionFailed, 0)),
      cognito = (\<lambda>i. (CognitoFailed, 0)),
      background = (\<lambda>n. False)\<rparr>"

definition ping :: sent where
  "ping = \<lparr>s_method = ''get'', s_url = ''/ping'', s_authorization = None, s_data = None,
            s_json = None\<rparr>"

text \<open>
  A session whose first two calls fail to connect, whose third is answered, and whose
  later ones are refused with 401; and one that always answers 503.
\<close>

definition flaky :: "json websession" where
  "flaky = (\<lambda>i. if i < 2 then (ConnectionFailed, 0)
                 else if i = 2 then (Responded (Some JNull), 0)
                 else (ResponseFailed 401, 0))"

definition down :: "json websession" where
  "down = (\<lambda>i. (ResponseFailed 503, 0))"

text \<open>
  A service that answers the calls of a first full refresh in their order (account,
  babies, device list, config) and every later call with a session blob, and an identity
  provider that accepts the login. Each answer takes a millisecond.
\<close>

definition service :: env where
  "service =
     \<lparr>main_session =
        (\<lambda>i. if i = 0 then (Responded (Some (JDict [(''userId'', JStr ''u1''),
                                                     (''givenName'', JStr ''Ann'')])), 1000)
              else if i = 1 then (Responded (Some (JList [JDict [(''_id'', JStr ''b1'')]])), 1000)
              else if i = 2 then
                (Responded (Some (JList [JDict [(''serialNumber'', JStr ''S1'')]])), 1000)
              else if i = 3 then (Responded (Some (JDict [(''weaning'', JBool False)])), 1000)
              else (Responded (Some (JDict [(''level'', JStr ''ONLINE'')])), 1000)),
      refresh_session = (\<lambda>i. (ConnectionFailed, 0)),
      cognito = (\<lambda>i. (CognitoReplied 200
                          (AuthenticationResult
                             \<lparr>IdToken = Some ''id1'', RefreshToken = Some ''r1'',
                              ExpiresIn = Some 10800, TokenType = Some ''Bearer''\<rparr>), 1000)),
      background = (\<lambda>n. False)\<rparr>"

text \<open>
  A client whose last refresh was 120 seconds ago and has loaded nothing yet, and the same
  client after a refresh.
\<close>

definition newcomer :: state where
  "newcomer = (init (Some ''ann'') (Some ''secret'') 120000000)\<lparr>last_state_update := Some 0\<rparr>"


text \<open>A client that holds a token which is not due, and two journal entries.\<close>

definition signed_in :: state where
  "signed_in =
     (init (Some ''ann'') (Some ''secret'') 1000)
       \<lparr>security_token := (Some ''Bearer id1'', Some ''r1'', Some 5400000000, Some 0)\<rparr>"

definition diaper :: "(string \<times> json) list" where
  "diaper = [(''type'', JStr ''diaper''), (''startTime'', JStr ''2024-01-01T10:00:00Z''),
             (''babyId'', JStr ''b1''), (''userId'', JStr ''u1''),
             (''data'', JDict [(''types'', JList [JStr ''pee''])])]"

definition diaper_without_user :: "(string \<times> json) list" where
  "diaper_without_user =
     [(''type'', JStr ''diaper''), (''startTime'', JStr ''2024-01-01T10:00:00Z''),
      (''babyId'', JStr ''b1''), (''data'', JDict [(''types'', JList [JStr ''pee''])])]"

text \<open>
  A service that refuses the first call with 401 and answers the later ones, with an
  identity provider that gives a second token; a service whose refresh endpoint answers;
  and a client whose token has run out.
\<close>

definition rejecting :: env where
  "rejecting =
     \<lparr>main_session = (\<lambda>i. if i = 0 then (ResponseFailed 401, 1000)
                            else (Responded (Some (JStr ''ok'')), 1000)),
      refresh_session = (\<lambda>i. (ConnectionFailed, 0)),
      cognito = (\<lambda>i. (CognitoReplied 200
                          (AuthenticationResult
                             \<lparr>IdToken = Some ''id2'', RefreshToken = Some ''r2'',
                              ExpiresIn = Some 10800, TokenType = Some ''Bearer''\<rparr>), 1000)),
      background = (\<lambda>n. False)\<rparr>"

definition renewing :: env where
  "renewing =
     \<lparr>main_session = (\<lambda>i. (Responded (Some (JStr ''ok'')), 1000)),
      refresh_session =
        (\<lambda>i. (Responded (Some \<lparr>r_token_type = Some ''Bearer'', r_access_token = Some ''id2'',
                                 r_refresh_token = Some ''r2'',
                                 r_expires_in = Some (Number 10800)\<rparr>), 1000)),
      cognito = (\<lambda>i. (CognitoFailed, 0)),
      background = (\<lambda>n. False)\<rparr>"

definition expired :: state where
  "expired =
     (init (Some ''ann'') (Some ''secret'') 6000000000)
       \<lparr>security_token := (Some ''Bearer id1'', Some ''r1'', Some 5400000000, Some 0)\<rparr>"

text \<open>A newly made client, and a call for the last session.\<close>

definition guest :: state where
  "guest = init (Some ''ann'') (Some ''secret'') 0"

definition session_call :: call where
  "session_call =
     \<lparr>c_method = ''get'', c_returns = ''json'', c_url = BASE_ENDPOINT @ SESSION_URI,
      c_data = None, c_json = None\<rparr>"

text \<open>
  An identity provider whose reply is no JSON text, and the state after two callers of
  the gateway, one after the other, on a newly made client.
\<close>

definition garbled :: env where
  "garbled =
     \<lparr>main_session = (\<lambda>i. (Responded (Some (JStr ''ok'')), 1000)),
      refresh_session = (\<lambda>i. (ConnectionFailed, 0)),
      cognito = (\<lambda>i. (CognitoReplied 200 NotJson, 1000)),
      background = (\<lambda>n. False)\<rparr>"

definition after_both :: "env \<Rightarrow> state" where
  "after_both env = snd (serve env session_call (snd (serve env session_call guest)))"

section \<open>Credential Manager: the guards of authenticate\<close>

text \<open>
  C9. When the stored username or password is absent, or the credentials are marked
  invalid, \<open>authenticate\<close> fails with \<open>InvalidCredentialsError\<close> and leaves the whole
  state as it was: no task is started and nothing is sent.
\<close>

theorem authenticate_without_credentials:
  "username st = None \<or> password st = None \<or> invalid_credentials st \<Longrightarrow>
   authenticate env wait st = (Inl InvalidCredentialsError, st)"
  by (auto simp: authenticate_def)

theorem authenticate_without_credentials_witness:
  "authenticate offline True (init None (Some ''secret'') 0)
     = (Inl InvalidCredentialsError, init None (Some ''secret'') 0)
   \<and> trace (snd (authenticate offline True (init None (Some ''secret'') 0))) = []
   \<and> authenticate offline False
         ((init (Some ''ann'') (Some ''secret'') 0)\<lparr>invalid_credentials := True\<rparr>)
     = (Inl InvalidCredentialsError,
        (init (Some ''ann'') (Some ''secret'') 0)\<lparr>invalid_credentials := True\<rparr>)"
  using authenticate_without_credentials [of "init None (Some ''secret'') 0" offline True]
    authenticate_without_credentials
      [of "(init (Some ''ann'') (Some ''secret'') 0)\<lparr>invalid_credentials := True\<rparr>"
          offline False]
  by (simp add: init_def)

section \<open>Transport: retries and waits\<close>

lemma sleeps_append: "sleeps (xs @ ys) = sleeps xs @ sleeps ys"
  by (induction xs rule: sleeps.induct) auto

lemma sends_append: "sends (xs @ ys) = sends xs @ sends ys"
  by (induction xs rule: sends.induct) auto

lemma loop_final:
  assumes "a < DEFAULT_REQUEST_RETRIES" and "\<not> retryable (fst (ws i))"
  shows "fst (u_send_request_loop ws rq i a e) = final (fst (ws i))"
    and "fst (snd (u_send_request_loop ws rq i a e)) = wait_events a @ [Sent rq]"
  using assms
  by (subst u_send_request_loop.simps; cases "fst (ws i)"; simp add: Let_def wait_events_def)+

lemma loop_retry:
  assumes "a < DEFAULT_REQUEST_RETRIES" and "retryable (fst (ws i))"
  shows "fst (u_send_request_loop ws rq i a e) =
           fst (u_send_request_loop ws rq (i + 1) (a + 1) (Some (raised (fst (ws i)))))"
    and "fst (snd (u_send_request_loop ws rq i a e)) =
           wait_events a @ Sent rq #
             fst (snd (u_send_request_loop ws rq (i + 1) (a + 1) (Some (raised (fst (ws i))))))"
  using assms
  by (subst u_send_request_loop.simps; cases "fst (ws i)";
      simp add: Let_def wait_events_def split: prod.splits)+

lemma loop_done:
  assumes "\<not> a < DEFAULT_REQUEST_RETRIES"
  shows "u_send_request_loop ws rq i a e =
           (Inl (case e of Some x \<Rightarrow> x | None \<Rightarrow> RequestError), [], 0)"
  using assms by (subst u_send_request_loop.simps) (simp split: option.splits)

lemma loop_stops:
  "a + k < DEFAULT_REQUEST_RETRIES \<Longrightarrow> \<forall>j<k. retryable (fst (ws (i + j))) \<Longrightarrow>
   \<not> retryable (fst (ws (i + k))) \<Longrightarrow>
   fst (u_send_request_loop ws rq i a e) = final (fst (ws (i + k))) \<and>
   fst (snd (u_send_request_loop ws rq i a e)) = attempts_events rq [a..<a + k + 1]"
proof (induction k arbitrary: i a e)
  case 0
  then show ?case
    by (simp add: loop_final attempts_events_def)
next
  case (Suc k)
  have r: "retryable (fst (ws i))" using Suc.prems(2) by auto
  have a: "a < DEFAULT_REQUEST_RETRIES" using Suc.prems(1) by simp
  have ih: "fst (u_send_request_loop ws rq (i + 1) (a + 1) e') = final (fst (ws (i + 1 + k))) \<and>
   fst (snd (u_send_request_loop ws rq (i + 1) (a + 1) e')) = attempts_events rq [a + 1..<a + 1 + k + 1]" for e'
    using Suc.prems by (intro Suc.IH) auto
  have up: "[a..<a + Suc k + 1] = a # [a + 1..<a + 1 + k + 1]"
    by (simp add: upt_rec)
  show ?case
    unfolding up
    using ih [of "Some (raised (fst (ws i)))"] a r
    by (simp add: loop_retry attempts_events_def del: upt_Suc)
qed

lemma loop_exhausts:
  "a + k = DEFAULT_REQUEST_RETRIES \<Longrightarrow> \<forall>j<k. retryable (fst (ws (i + j))) \<Longrightarrow>
   fst (u_send_request_loop ws rq i a e) =
     Inl (if k = 0 then (case e of Some x \<Rightarrow> x | None \<Rightarrow> RequestError)
          else raised (fst (ws (i + k - 1)))) \<and>
   fst (snd (u_send_request_loop ws rq i a e)) = attempts_events rq [a..<a + k]"
proof (induction k arbitrary: i a e)
  case 0
  then show ?case by (simp add: loop_done attempts_events_def)
next
  case (Suc k)
  have r: "retryable (fst (ws i))" using Suc.prems(2) by auto
  have a: "a < DEFAULT_REQUEST_RETRIES" using Suc.prems(1) by simp
  have ih: "fst (u_send_request_loop ws rq (i + 1) (a + 1) e') =
     Inl (if k = 0 then (case e' of Some x \<Rightarrow> x | None \<Rightarrow> RequestError)
          else raised (fst (ws (i + 1 + k - 1)))) \<and>
   fst (snd (u_send_request_loop ws rq (i + 1) (a + 1) e')) = attempts_events rq [a + 1..<a + 1 + k]" for e'
    using Suc.prems by (intro Suc.IH) auto
  have up: "[a..<a + Suc k] = a # [a + 1..<a + 1 + k]"
    by (simp add: upt_rec)
  show ?case
    unfolding up
    using ih [of "Some (raised (fst (ws i)))"] a r
    by (simp add: loop_retry attempts_events_def del: upt_Suc)
qed

lemma upto5: "k < 5 \<Longrightarrow> k = 0 \<or> k = 1 \<or> k = 2 \<or> k = 3 \<or> k = (4::nat)"
  by arith

lemma sleeps_attempts: "k < 5 \<Longrightarrow> sleeps (attempts_events rq [0..<k + 1]) = take k [2, 4, 5, 5]"
  by (drule upto5)
     (auto simp: attempts_events_def wait_events_def sleeps_append eval_nat_numeral)

lemma sends_attempts: "sends (attempts_events rq as) = replicate (length as) rq"
  by (induction as) (simp_all add: attempts_events_def wait_events_def sends_append)

lemma all5: "attempts_events rq [0..<5] = [Sent rq, Slept 2, Sent rq, Slept 4, Sent rq, Slept 5, Sent rq, Slept 5, Sent rq]"
  by (simp add: attempts_events_def wait_events_def eval_nat_numeral)

text \<open>
  C4 (as amended). A send makes at most five calls. While calls fail with a network error
  or an HTTP error other than 401 the next call follows, after a wait of
  \<open>min (2 ^ attempt) 5\<close> seconds with \<open>attempt\<close> counted from 1: the waits between
  five calls are 2, 4, 5 and 5 seconds. The first call that is answered ends the send
  with its response, and the first 401 ends it with that exception, neither followed by
  a wait or a call. After five failed calls the exception of the last is raised. When
  the loop ends with no exception captured it raises \<open>RequestError\<close>.
\<close>

theorem u_send_request_retries:
  "(k < 5 \<and> (\<forall>j<k. retryable (fst (ws (i + j)))) \<and> fst (ws (i + k)) = Responded b \<longrightarrow>
      fst (u_send_request ws rq i) = Inr b \<and>
      sleeps (fst (snd (u_send_request ws rq i))) = take k [2, 4, 5, 5] \<and>
      sends (fst (snd (u_send_request ws rq i))) = replicate (k + 1) rq)
   \<and> (k < 5 \<and> (\<forall>j<k. retryable (fst (ws (i + j)))) \<and> fst (ws (i + k)) = ResponseFailed 401 \<longrightarrow>
      fst (u_send_request ws rq i) = Inl (ClientResponseError 401) \<and>
      sleeps (fst (snd (u_send_request ws rq i))) = take k [2, 4, 5, 5] \<and>
      sends (fst (snd (u_send_request ws rq i))) = replicate (k + 1) rq)
   \<and> ((\<forall>j<5. retryable (fst (ws (i + j)))) \<longrightarrow>
      fst (u_send_request ws rq i) = Inl (raised (fst (ws (i + 4)))) \<and>
      fst (snd (u_send_request ws rq i)) =
        [Sent rq, Slept 2, Sent rq, Slept 4, Sent rq, Slept 5, Sent rq, Slept 5, Sent rq])
   \<and> (\<not> attempt < DEFAULT_REQUEST_RETRIES \<longrightarrow>
      u_send_request_loop ws rq i attempt (Some e) = (Inl e, [], 0) \<and>
      u_send_request_loop ws rq i attempt None = (Inl RequestError, [], 0))"
proof (intro conjI impI)
  assume h: "k < 5 \<and> (\<forall>j<k. retryable (fst (ws (i + j)))) \<and> fst (ws (i + k)) = Responded b"
  then have s: "fst (u_send_request_loop ws rq i 0 None) = final (fst (ws (i + k))) \<and>
     fst (snd (u_send_request_loop ws rq i 0 None)) = attempts_events rq [0..<0 + k + 1]"
    by (intro loop_stops) (simp_all add: DEFAULT_REQUEST_RETRIES_def)
  show "fst (u_send_request ws rq i) = Inr b" using s h by (simp add: u_send_request_def)
  show "sleeps (fst (snd (u_send_request ws rq i))) = take k [2, 4, 5, 5]"
    using s h sleeps_attempts [of k rq] by (simp add: u_send_request_def)
  show "sends (fst (snd (u_send_request ws rq i))) = replicate (k + 1) rq"
    using s by (simp add: u_send_request_def sends_attempts)
next
  assume h: "k < 5 \<and> (\<forall>j<k. retryable (fst (ws (i + j)))) \<and> fst (ws (i + k)) = ResponseFailed 401"
  then have s: "fst (u_send_request_loop ws rq i 0 None) = final (fst (ws (i + k))) \<and>
     fst (snd (u_send_request_loop ws rq i 0 None)) = attempts_events rq [0..<0 + k + 1]"
    by (intro loop_stops) (simp_all add: DEFAULT_REQUEST_RETRIES_def)
  show "fst (u_send_request ws rq i) = Inl (ClientResponseError 401)"
    using s h by (simp add: u_send_request_def)
  show "sleeps (fst (snd (u_send_request ws rq i))) = take k [2, 4, 5, 5]"
    using s h sleeps_attempts [of k rq] by (simp add: u_send_request_def)
  show "sends (fst (snd (u_send_request ws rq i))) = replicate (k + 1) rq"
    using s by (simp add: u_send_request_def sends_attempts)
next
  assume h: "\<forall>j<5. retryable (fst (ws (i + j)))"
  then have s: "fst (u_send_request_loop ws rq i 0 None) =
     Inl (if (5::nat) = 0 then (case None of Some x \<Rightarrow> x | None \<Rightarrow> RequestError)
          else raised (fst (ws (i + 5 - 1)))) \<and>
     fst (snd (u_send_request_loop ws rq i 0 None)) = attempts_events rq [0..<0 + 5]"
    by (intro loop_exhausts) (simp_all add: DEFAULT_REQUEST_RETRIES_def)
  show "fst (u_send_request ws rq i) = Inl (raised (fst (ws (i + 4))))"
    using s by (simp add: u_send_request_def add.commute)
  show "fst (snd (u_send_request ws rq i)) =
        [Sent rq, Slept 2, Sent rq, Slept 4, Sent rq, Slept 5, Sent rq, Slept 5, Sent rq]"
    using s all5 [of rq] by (simp add: u_send_request_def)
next
  assume "\<not> attempt < DEFAULT_REQUEST_RETRIES"
  then show "u_send_request_loop ws rq i attempt (Some e) = (Inl e, [], 0)"
    and "u_send_request_loop ws rq i attempt None = (Inl RequestError, [], 0)"
    by (simp_all add: loop_done)
qed

theorem u_send_request_retries_witness:
  "fst (u_send_request flaky ping 0) = Inr (Some JNull)
   \<and> sleeps (fst (snd (u_send_request flaky ping 0))) = [2, 4]
   \<and> sends (fst (snd (u_send_request flaky ping 0))) = [ping, ping, ping]
   \<and> fst (u_send_request flaky ping 3) = Inl (ClientResponseError 401)
   \<and> sends (fst (snd (u_send_request flaky ping 3))) = [ping]
   \<and> fst (u_send_request down ping 0) = Inl (ClientResponseError 503)
   \<and> sleeps (fst (snd (u_send_request down ping 0))) = [2, 4, 5, 5]
   \<and> u_send_request_loop down ping 0 5 None = (Inl RequestError, [], 0)"
proof -
  have a: "(2::nat) < 5 \<and> (\<forall>j<2. retryable (fst (flaky (0 + j)))) \<and>
           fst (flaky (0 + 2)) = Responded (Some JNull)"
    by (simp add: flaky_def)
  have b: "(0::nat) < 5 \<and> (\<forall>j<0. retryable (fst (flaky (3 + j)))) \<and>
           fst (flaky (3 + 0)) = ResponseFailed 401"
    by (simp add: flaky_def)
  have c: "\<forall>j<5. retryable (fst (down (0 + j)))"
    by (simp add: down_def)
  have d: "\<not> (5::nat) < DEFAULT_REQUEST_RETRIES"
    by (simp add: DEFAULT_REQUEST_RETRIES_def)
  show ?thesis
    using a b c d
      u_send_request_retries [of 2 flaky 0 "Some JNull" ping 5 ClientError]
      u_send_request_retries [of 0 flaky 3 "Some JNull" ping 5 ClientError]
      u_send_request_retries [of 0 down 0 "Some JNull" ping 5 ClientError]
    by (simp add: down_def eval_nat_numeral)
qed

text \<open>
  C4 as stated gives five waits, 2, 4, 5, 5 and 5 seconds. A send whose calls all fail
  waits four times.
\<close>

theorem sleeps_counterexample:
  "sleeps (fst (snd (u_send_request down ping 0))) = [2, 4, 5, 5]
   \<and> sleeps (fst (snd (u_send_request down ping 0))) \<noteq> [2, 4, 5, 5, 5]"
  by (simp add: u_send_request_def u_send_request_loop.simps down_def DEFAULT_REQUEST_RETRIES_def Let_def)

section \<open>What a call may change\<close>

lemma gateway_step_refl [simp]: "gateway_step P st st"
  by (simp add: gateway_step_def)

lemma gateway_step_trans:
  "gateway_step P a b \<Longrightarrow> gateway_step P b c \<Longrightarrow> gateway_step P a c"
  unfolding gateway_step_def
  by (elim conjE exE) (auto simp: sends_append)

lemma gateway_step_mono:
  "gateway_step P a b \<Longrightarrow> (\<And>rq. P rq \<Longrightarrow> Q rq) \<Longrightarrow> gateway_step Q a b"
  unfolding gateway_step_def list_all_iff by blast

lemma gateway_step_slot [simp]:
  "gateway_step P st (st'\<lparr>authentication_task := x\<rparr>) = gateway_step P st st'"
  "gateway_step P st (st'\<lparr>security_token := y\<rparr>) = gateway_step P st st'"
  "gateway_step P st (st'\<lparr>dispatches := z\<rparr>) = gateway_step P st st'"
  "gateway_step P st (st'\<lparr>tasks := w\<rparr>) = gateway_step P st st'"
  by (simp_all add: gateway_step_def)

lemma sends_wait_events [simp]: "sends (wait_events a) = []"
  by (simp add: wait_events_def)

lemma sends_loop:
  "list_all (\<lambda>r. r = rq) (sends (fst (snd (u_send_request_loop ws rq i a e))))"
proof (induction "DEFAULT_REQUEST_RETRIES - a" arbitrary: a i e)
  case 0
  then have "\<not> a < DEFAULT_REQUEST_RETRIES" by simp
  then show ?case by (simp add: loop_done)
next
  case (Suc n)
  then have a: "a < DEFAULT_REQUEST_RETRIES" and n: "n = DEFAULT_REQUEST_RETRIES - (a + 1)"
    by simp_all
  show ?case
  proof (cases "retryable (fst (ws i))")
    case True
    show ?thesis
      using Suc.hyps(1) [OF n]
      by (simp add: loop_retry(2) [where ws = ws and i = i and a = a, OF a True] sends_append)
  next
    case False
    show ?thesis
      by (simp add: loop_final(2) [where ws = ws and i = i and a = a, OF a False] sends_append)
  qed
qed

lemma events_request_json [simp]:
  "fst (snd (request_json ws rq i)) = fst (snd (u_send_request ws rq i))"
  by (simp add: request_json_def split: prod.splits sum.splits option.splits)

lemma events_request_response [simp]:
  "fst (snd (request_response ws rq i)) = fst (snd (u_send_request ws rq i))"
  by (simp add: request_response_def split: prod.splits sum.splits option.splits)

lemma events_getattr [simp]:
  "fst (snd (getattr_snoorequests name ws rq i)) = fst (snd (u_send_request ws rq i))"
  by (simp add: getattr_snoorequests_def)

lemma events_request_login:
  "fst (snd (request_login returns ws rq i)) =
     (case map_of REQUEST_METHODS returns of
        None \<Rightarrow> []
      | Some name \<Rightarrow> fst (snd (u_send_request ws rq i)))"
proof (cases "map_of REQUEST_METHODS returns")
  case None
  then show ?thesis by (simp add: request_login_def)
next
  case (Some name)
  have "fst (snd (request_login returns ws rq i)) = fst (snd (getattr_snoorequests name ws rq i))"
    using Some
    by (cases "getattr_snoorequests name ws rq i")
       (simp add: request_login_def split: sum.splits error.splits)
  then show ?thesis using Some by simp
qed

lemma sends_send_request:
  "list_all (\<lambda>r. r = rq) (sends (fst (snd (u_send_request ws rq i))))"
  by (simp add: u_send_request_def sends_loop)

lemma sends_request_login:
  "list_all (\<lambda>r. r = rq) (sends (fst (snd (request_login returns ws rq i))))"
  by (simp add: events_request_login sends_send_request split: option.splits)

lemma gateway_step_record_main:
  "list_all P (sends evs) \<Longrightarrow> gateway_step P st (record_main evs t st)"
  by (auto simp: gateway_step_def record_main_def list_all_iff)

lemma gateway_step_record_refresh:
  "list_all refresh_post (sends evs) \<Longrightarrow> gateway_step P st (record_refresh evs t st)"
  by (auto simp: gateway_step_def record_refresh_def list_all_iff)

lemma gateway_step_api_authenticate:
  "u_api_authenticate env st = (r, st') \<Longrightarrow> gateway_step P st st'"
  by (auto simp: u_api_authenticate_def Let_def gateway_step_def
      split: cognito_reply.splits cognito_body.splits option.splits if_splits)

lemma gateway_step_refresh_token:
  assumes "u_refresh_token env stored st = (r, st')"
  shows "gateway_step P st st'"
proof -
  let ?rq = "\<lparr>s_method = ''post'', s_url = BASE_ENDPOINT @ REFRESH_URI,
              s_authorization = None,
              s_data = Some (JDict [(''refresh_token'',
                                     case stored of None \<Rightarrow> JNull | Some r \<Rightarrow> JStr r)]),
              s_json = None\<rparr>"
  let ?c = "request_login ''json'' (refresh_session env) ?rq (refresh_calls st)"
  have "list_all (\<lambda>r. r = ?rq) (sends (fst (snd ?c)))"
    by (rule sends_request_login)
  then have "list_all refresh_post (sends (fst (snd ?c)))"
    by (auto simp: list_all_iff refresh_post_def)
  then have "gateway_step P st (record_refresh (fst (snd ?c)) (snd (snd ?c)) st)"
    by (rule gateway_step_record_refresh)
  moreover have "st' = record_refresh (fst (snd ?c)) (snd (snd ?c)) st"
    using assms
    by (auto simp: u_refresh_token_def Let_def split: prod.splits sum.splits option.splits)
  ultimately show ?thesis by simp
qed

lemma gateway_step_u_authenticate:
  "u_authenticate env j st = (r, st') \<Longrightarrow> gateway_step P st st'"
  by (auto simp: u_authenticate_def split: job.splits prod.splits sum.splits
      dest: gateway_step_api_authenticate [where P = P] gateway_step_refresh_token [where P = P])

lemma gateway_step_finish_task:
  "gateway_step P st (finish_task env st)"
  by (auto simp: finish_task_def split: option.splits task.splits prod.splits sum.splits
      dest: gateway_step_u_authenticate [where P = P])

lemma gateway_step_authenticate:
  "authenticate env wait st = (r, st') \<Longrightarrow> gateway_step P st st'"
proof -
  assume a: "authenticate env wait st = (r, st')"
  let ?st1 = "if authentication_task st = None
              then st\<lparr>authentication_task := Some (Running (u_authenticate_branch st)),
                      tasks := tasks st @ [Created]\<rparr>
              else st"
  have 1: "gateway_step P st ?st1" by simp
  have 2: "gateway_step P ?st1 (finish_task env ?st1)" by (rule gateway_step_finish_task)
  have 3: "gateway_step P st (finish_task env ?st1)" by (rule gateway_step_trans [OF 1 2])
  show ?thesis
    using a 1 3
    by (auto simp: authenticate_def Let_def
        split: if_splits option.splits task.splits)
qed

lemma gateway_step_harvest:
  "harvest env st = (r, st') \<Longrightarrow> gateway_step P st st'"
  by (auto simp: harvest_def split: if_splits prod.splits sum.splits option.splits task.splits
      dest: gateway_step_authenticate [where P = P])

lemma gateway_step_check_token:
  "check_token env st = (r, st') \<Longrightarrow> gateway_step P st st'"
  by (auto simp: check_token_def split: if_splits prod.splits sum.splits option.splits
      dest: gateway_step_authenticate [where P = P])

lemma gateway_step_clear_token [simp]:
  "gateway_step P st (clear_token st') = gateway_step P st st'"
  "gateway_step P (clear_token st) st' = gateway_step P st st'"
  by (simp_all add: clear_token_def gateway_step_def split: prod.splits)

lemma gateway_step_on_error:
  "on_error env err st = (r, st') \<Longrightarrow> gateway_step P st st'"
  by (auto simp: on_error_def split: if_splits prod.splits sum.splits error.splits
      dest!: gateway_step_authenticate [where P = P])

lemma gateway_step_dispatch:
  assumes "dispatch env name rq st = (r, st')"
  shows "gateway_step (\<lambda>r. r = rq) st st'"
proof -
  let ?st0 = "if background env (dispatches st) then finish_task env st else st"
  obtain x evs t where c:
    "getattr_snoorequests name (main_session env) rq (main_calls ?st0) = (x, evs, t)"
    by (cases "getattr_snoorequests name (main_session env) rq (main_calls ?st0)") auto
  have 1: "gateway_step (\<lambda>r. r = rq) st ?st0"
    by (simp add: gateway_step_finish_task)
  have "list_all (\<lambda>r. r = rq)
          (sends (fst (snd (getattr_snoorequests name (main_session env) rq (main_calls ?st0)))))"
    unfolding events_getattr by (rule sends_send_request)
  then have "list_all (\<lambda>r. r = rq) (sends evs)"
    unfolding c by simp
  then have 2: "gateway_step (\<lambda>r. r = rq) ?st0 (record_main evs t ?st0)"
    by (rule gateway_step_record_main)
  have "st' = (record_main evs t ?st0)\<lparr>dispatches := dispatches ?st0 + 1\<rparr>"
    using assms c unfolding dispatch_def Let_def by simp
  then show ?thesis
    using gateway_step_trans [OF 1 2] by simp
qed

lemma gateway_step_send_authorized:
  assumes "send_authorized env name method url data json st = (r, st')"
  shows "gateway_step (\<lambda>r. s_method r = method \<and> s_url r = url \<and> s_data r = data \<and> s_json r = json) st st'"
    (is "gateway_step ?P st st'")
proof -
  let ?h = "\<lparr>s_method = method, s_url = url, s_authorization = fst (security_token st),
             s_data = data, s_json = json\<rparr>"
  have d: "dispatch env name ?h s = (x, s') \<Longrightarrow> gateway_step ?P s s'" for s x s'
    by (rule gateway_step_mono [OF gateway_step_dispatch]) auto
  have a: "authenticate env w s = (x, s') \<Longrightarrow> gateway_step ?P s s'" for w s x s'
    by (rule gateway_step_authenticate)
  have e: "on_error env err s = (x, s') \<Longrightarrow> gateway_step ?P s s'" for err s x s'
    by (rule gateway_step_on_error)
  have c: "gateway_step ?P s (clear_token s)" for s
    by simp
  show ?thesis
    using assms
    unfolding send_authorized_def Let_def
    by (auto split: prod.splits sum.splits error.splits if_splits
        dest!: d a e intro: gateway_step_trans [OF gateway_step_trans] gateway_step_trans)
qed

lemma gateway_step_request:
  assumes "request env method returns url data json login_request st = (r, st')"
  shows "gateway_step (\<lambda>r. s_method r = method \<and> s_url r = url \<and> s_data r = data \<and> s_json r = json) st st'"
    (is "gateway_step ?P st st'")
proof (cases "map_of REQUEST_METHODS returns")
  case None
  then show ?thesis using assms by (simp add: request_def)
next
  case (Some name)
  show ?thesis
  proof (cases login_request)
    case True
    let ?rq = "\<lparr>s_method = method, s_url = url, s_authorization = None,
                s_data = data, s_json = json\<rparr>"
    obtain x evs t where c: "request_login returns (main_session env) ?rq (main_calls st) = (x, evs, t)"
      by (cases "request_login returns (main_session env) ?rq (main_calls st)") auto
    have "list_all (\<lambda>r. r = ?rq) (sends (fst (snd (request_login returns (main_session env) ?rq (main_calls st)))))"
      by (rule sends_request_login)
    then have "list_all ?P (sends evs)"
      unfolding c by (auto simp: list_all_iff)
    then have "gateway_step ?P st (record_main evs t st)"
      by (rule gateway_step_record_main)
    moreover have "st' = record_main evs t st"
      using assms Some True c by (simp add: request_def)
    ultimately show ?thesis by simp
  next
    case False
    have h: "harvest env s = (x, s') \<Longrightarrow> gateway_step ?P s s'" for s x s'
      by (rule gateway_step_harvest)
    have c: "check_token env s = (x, s') \<Longrightarrow> gateway_step ?P s s'" for s x s'
      by (rule gateway_step_check_token)
    show ?thesis
      using assms Some False
      unfolding request_def
      by (auto split: prod.splits sum.splits
          dest!: h c gateway_step_send_authorized intro: gateway_step_trans)
  qed
qed

lemma registry_step_refl [simp]: "registry_step P st st"
  by (simp add: registry_step_def)

lemma registry_step_trans:
  "registry_step P a b \<Longrightarrow> registry_step P b c \<Longrightarrow> registry_step P a c"
  unfolding registry_step_def
  by (elim conjE exE) (auto simp: sends_append)

lemma registry_step_mono:
  "registry_step P a b \<Longrightarrow> (\<And>rq. P rq \<Longrightarrow> Q rq) \<Longrightarrow> registry_step Q a b"
  unfolding registry_step_def list_all_iff by blast

lemma gateway_registry_step: "gateway_step P a b \<Longrightarrow> registry_step P a b"
  by (simp add: gateway_step_def registry_step_def)

lemma registry_step_fields [simp]:
  "registry_step P st (st'\<lparr>devices := x\<rparr>) = registry_step P st st'"
  "registry_step P st (st'\<lparr>account := y\<rparr>) = registry_step P st st'"
  "registry_step P st (st'\<lparr>baby := z\<rparr>) = registry_step P st st'"
  "registry_step P st (st'\<lparr>last_state_update := w\<rparr>) = registry_step P st st'"
  "registry_step P (st\<lparr>devices := x\<rparr>) st' = registry_step P st st'"
  "registry_step P (st\<lparr>account := y\<rparr>) st' = registry_step P st st'"
  "registry_step P (st\<lparr>baby := z\<rparr>) st' = registry_step P st st'"
  "registry_step P (st\<lparr>last_state_update := w\<rparr>) st' = registry_step P st st'"
  by (simp_all add: registry_step_def)

lemma registry_step_update_device [simp]:
  "registry_step P st (update_device k f st') = registry_step P st st'"
  "registry_step P (update_device k f st) st' = registry_step P st st'"
  "registry_step P st (u_add_new_device dj k st') = registry_step P st st'"
  "registry_step P (u_add_new_device dj k st) st' = registry_step P st st'"
  by (simp_all add: update_device_def u_add_new_device_def)

lemma gateway_step_get_session:
  "get_session_for_account env st = (r, st') \<Longrightarrow> gateway_step (get_of SESSION_URI) st st'"
  by (auto simp: get_session_for_account_def get_of_def split: sum.splits
      dest!: gateway_step_request elim: gateway_step_mono)

lemma gateway_step_get_configs:
  "get_configs_for_device env k st = (r, st') \<Longrightarrow> gateway_step any_get st st'"
  by (auto simp: get_configs_for_device_def any_get_def
      dest!: gateway_step_request elim: gateway_step_mono)

lemma gateway_step_get_babies:
  "get_babies_v10 env st = (r, st') \<Longrightarrow> gateway_step any_get st st'"
  by (auto simp: get_babies_v10_def any_get_def
      dest!: gateway_step_request elim: gateway_step_mono)

lemma gateway_step_any_get:
  "request env ''get'' returns url data json login st = (r, st') \<Longrightarrow> gateway_step any_get st st'"
  by (auto simp: any_get_def dest!: gateway_step_request elim: gateway_step_mono)

lemma gateway_step_get_account:
  "get_account env st = (r, st') \<Longrightarrow> gateway_step any_get st st'"
  unfolding get_account_def
  by (auto split: prod.splits sum.splits json.splits option.splits
      dest!: gateway_step_any_get intro: gateway_step_trans)

lemma gateway_step_get_baby:
  "get_baby_for_account env st = (r, st') \<Longrightarrow> gateway_step any_get st st'"
  unfolding get_baby_for_account_def
  by (auto split: prod.splits sum.splits
      dest!: gateway_step_any_get gateway_step_get_babies intro: gateway_step_trans)

lemma registry_step_device_loop:
  "device_loop env ts xs st = (r, st') \<Longrightarrow> registry_step any_get st st'"
proof (induction xs arbitrary: st)
  case Nil
  then show ?case by simp
next
  case (Cons x xs)
  have s: "get_session_for_account env a = (y, b) \<Longrightarrow> registry_step any_get a b" for a y b
    by (auto dest!: gateway_step_get_session gateway_registry_step
        elim!: registry_step_mono simp: get_of_def any_get_def)
  have c: "get_configs_for_device env k a = (y, b) \<Longrightarrow> registry_step any_get a b" for k a y b
    by (auto dest!: gateway_step_get_configs gateway_registry_step)
  show ?case
    using Cons.prems
    by (auto simp: Let_def split: json.splits option.splits prod.splits sum.splits if_splits
        dest!: Cons.IH s c intro: registry_step_trans registry_step_trans [OF registry_step_trans])
qed

lemma registry_step_get_device_details:
  "u_get_device_details env st = (r, st') \<Longrightarrow> registry_step any_get st st'"
  unfolding u_get_device_details_def Let_def
  by (auto split: prod.splits sum.splits json.splits
      dest!: gateway_step_any_get gateway_registry_step registry_step_device_loop
      intro: registry_step_trans registry_step_trans [OF registry_step_trans])

lemma blobs_kept_refl [simp]: "blobs_kept st st"
  by (simp add: blobs_kept_def)

lemma blobs_kept_trans: "blobs_kept a b \<Longrightarrow> blobs_kept b c \<Longrightarrow> blobs_kept a c"
  by (simp add: blobs_kept_def)

lemma gateway_blobs_kept: "gateway_step P a b \<Longrightarrow> blobs_kept a b"
  by (simp add: gateway_step_def blobs_kept_def)

lemma blobs_kept_session [simp]:
  "blobs_kept st (update_device k (session_update f) st') = blobs_kept st st'"
  "blobs_kept (update_device k (session_update f) st) st' = blobs_kept st st'"
  by (simp_all add: blobs_kept_def update_device_def case_prod_beta comp_def if_distrib
      cong: if_cong)

lemma session_loop_step:
  "session_loop env ks st = (r, st') \<Longrightarrow>
   registry_step (get_of SESSION_URI) st st' \<and> blobs_kept st st' \<and>
   last_state_update st' = last_state_update st \<and> account st' = account st \<and>
   baby st' = baby st"
proof (induction ks arbitrary: st)
  case Nil
  then show ?case by simp
next
  case (Cons k ks)
  show ?case
  proof (cases "get_session_for_account env st")
    case (Pair x st1)
    note g = gateway_step_get_session [OF Pair]
    show ?thesis
    proof (cases x)
      case (Inl e)
      then show ?thesis
        using Cons.prems Pair g
        by (auto simp: gateway_registry_step gateway_blobs_kept gateway_step_def)
    next
      case (Inr s)
      let ?st2 = "update_device k (\<lambda>dv. dv\<lparr>session := s\<rparr>) st1"
      have l: "session_loop env ks ?st2 = (r, st')"
        using Cons.prems Pair Inr by simp
      note ih = Cons.IH [OF l]
      have 1: "registry_step (get_of SESSION_URI) st ?st2"
        using g by (simp add: gateway_registry_step)
      have 2: "blobs_kept st ?st2"
        using g by (simp add: gateway_blobs_kept)
      have 3: "last_state_update ?st2 = last_state_update st" "account ?st2 = account st"
        "baby ?st2 = baby st"
        using g by (simp_all add: gateway_step_def update_device_def)
      show ?thesis
        using ih 1 2 3
        by (auto intro: registry_step_trans blobs_kept_trans)
    qed
  qed
qed

lemma fetched_mono: "fetched env m n d \<Longrightarrow> m' \<le> m \<Longrightarrow> n \<le> n' \<Longrightarrow> fetched env m' n' d"
  unfolding fetched_def by (meson le_trans less_le_trans)


lemma sent_in_after: "sent_in rq a b \<Longrightarrow> registry_step P b c \<Longrightarrow> sent_in rq a c"
  unfolding sent_in_def registry_step_def by auto

lemma Sent_in_sends: "Sent rq \<in> set evs \<longleftrightarrow> rq \<in> set (sends evs)"
  by (induction evs rule: sends.induct) auto





lemma answered_after: "answered env rq d a b \<Longrightarrow> registry_step P b c \<Longrightarrow> answered env rq d a c"
  unfolding answered_def
  by (auto intro: sent_in_after fetched_mono simp: registry_step_def)





section \<open>Device Registry: the throttle\<close>

lemmas transport_defs =
  u_send_request_def u_send_request_loop.simps DEFAULT_REQUEST_RETRIES_def request_json_def
  request_response_def REQUEST_METHODS_def getattr_snoorequests_def

lemmas credential_defs =
  int_half_def datetime_plus_def datetime_min_def datetime_max_def timedelta_seconds_def
  u_api_authenticate_def request_login_def str_of_def u_refresh_token_def
  u_authenticate_branch_def u_authenticate_def finish_task_def authenticate_def
  DEFAULT_TOKEN_REFRESH_def record_refresh_def

lemmas gateway_defs =
  data_of_def dispatch_def harvest_def check_token_def clear_token_def on_error_def
  send_authorized_def request_def record_main_def

lemmas registry_defs =
  given_name_def get_account_def get_babies_v10_def get_baby_for_account_def
  get_session_for_account_def get_configs_for_device_def u_add_new_device_def
  update_device_def u_get_device_details_def load_account_def load_baby_def
  update_device_info_def DEFAULT_DEVICE_UPDATE_INTERVAL_def dict_get_def dict_has_def




lemma registry_step_load_account:
  "load_account env st = (r, st') \<Longrightarrow> registry_step any_get st st'"
  by (auto simp: load_account_def split: if_splits prod.splits sum.splits
      dest!: gateway_step_get_account gateway_registry_step)

lemma registry_step_load_baby:
  "load_baby env st = (r, st') \<Longrightarrow> registry_step any_get st st'"
  by (auto simp: load_baby_def split: if_splits prod.splits sum.splits
      dest!: gateway_step_get_baby gateway_registry_step)

lemma blobs_kept_last [simp]:
  "blobs_kept (st\<lparr>last_state_update := x\<rparr>) st' = blobs_kept st st'"
  by (simp add: blobs_kept_def)

lemma sent_in_last [simp]:
  "sent_in rq (st\<lparr>last_state_update := x\<rparr>) st' = sent_in rq st st'"
  "sent_in rq st (st'\<lparr>last_state_update := y\<rparr>) = sent_in rq st st'"
  by (simp_all add: sent_in_def)





section \<open>Journal Client: update of an entry\<close>

text \<open>
  C6. When one of the fields type, startTime, babyId, userId, data is missing from the
  payload, \<open>update_journal_entry\<close> fails with \<open>ValueError\<close> and leaves the state as
  it was, so nothing has been sent. A payload with all five fields goes to the gateway
  as it is: every request of the call is a PUT to the entry's URL whose JSON body is the
  payload.
\<close>

theorem update_journal_entry_complete:
  "(field \<in> set [''type'', ''startTime'', ''babyId'', ''userId'', ''data''] \<and>
    \<not> dict_has updates field \<longrightarrow>
      update_journal_entry env entry_id updates st = (Inl ValueError, st))
   \<and> (list_all (dict_has updates) [''type'', ''startTime'', ''babyId'', ''userId'', ''data''] \<longrightarrow>
      update_journal_entry env entry_id updates st =
        request env ''put'' ''json'' (BASE_ENDPOINT @ JOURNALS_CREATE_URI @ ''/'' @ entry_id)
          None (Some (JDict updates)) False st \<and>
      gateway_step
        (\<lambda>rq. s_method rq = ''put'' \<and>
              s_url rq = BASE_ENDPOINT @ JOURNALS_CREATE_URI @ ''/'' @ entry_id \<and>
              s_data rq = None \<and> s_json rq = Some (JDict updates))
        st (snd (update_journal_entry env entry_id updates st)))"
proof (intro conjI impI)
  assume "field \<in> set [''type'', ''startTime'', ''babyId'', ''userId'', ''data''] \<and>
    \<not> dict_has updates field"
  then have "\<not> list_all (dict_has updates) [''type'', ''startTime'', ''babyId'', ''userId'', ''data'']"
    unfolding list_all_iff by blast
  then show "update_journal_entry env entry_id updates st = (Inl ValueError, st)"
    unfolding update_journal_entry_def Let_def by (simp only: if_False)
next
  assume c: "list_all (dict_has updates) [''type'', ''startTime'', ''babyId'', ''userId'', ''data'']"
  then show e: "update_journal_entry env entry_id updates st =
        request env ''put'' ''json'' (BASE_ENDPOINT @ JOURNALS_CREATE_URI @ ''/'' @ entry_id)
          None (Some (JDict updates)) False st"
    by (simp add: update_journal_entry_def Let_def)
  show "gateway_step
        (\<lambda>rq. s_method rq = ''put'' \<and>
              s_url rq = BASE_ENDPOINT @ JOURNALS_CREATE_URI @ ''/'' @ entry_id \<and>
              s_data rq = None \<and> s_json rq = Some (JDict updates))
        st (snd (update_journal_entry env entry_id updates st))"
    unfolding e
    by (rule gateway_step_request
          [where env = env and returns = "''json''" and login_request = False
             and r = "fst (request env ''put'' ''json''
                             (BASE_ENDPOINT @ JOURNALS_CREATE_URI @ ''/'' @ entry_id)
                             None (Some (JDict updates)) False st)"])
       simp
qed

lemma journal_run:
  "update_journal_entry service ''e1'' diaper signed_in =
     (Inr (JDict [(''userId'', JStr ''u1''), (''givenName'', JStr ''Ann'')]),
      signed_in\<lparr>trace := [Sent \<lparr>s_method = ''put'',
                                 s_url = BASE_ENDPOINT @ JOURNALS_CREATE_URI @ ''/e1'',
                                 s_authorization = Some ''Bearer id1'', s_data = None,
                                 s_json = Some (JDict diaper)\<rparr>],
                 clock := 2000, main_calls := 1, dispatches := 1\<rparr>)"
  by (simp add: update_journal_entry_def service_def signed_in_def init_def diaper_def
      transport_defs credential_defs gateway_defs registry_defs Let_def)

theorem update_journal_entry_complete_witness:
  "update_journal_entry service ''e1'' diaper_without_user signed_in = (Inl ValueError, signed_in)
   \<and> fst (update_journal_entry service ''e1'' diaper signed_in)
       = Inr (JDict [(''userId'', JStr ''u1''), (''givenName'', JStr ''Ann'')])
   \<and> sends (trace (snd (update_journal_entry service ''e1'' diaper signed_in)))
       = [\<lparr>s_method = ''put'', s_url = BASE_ENDPOINT @ JOURNALS_CREATE_URI @ ''/e1'',
           s_authorization = Some ''Bearer id1'', s_data = None, s_json = Some (JDict diaper)\<rparr>]
   \<and> gateway_step
        (\<lambda>rq. s_method rq = ''put'' \<and>
              s_url rq = BASE_ENDPOINT @ JOURNALS_CREATE_URI @ ''/'' @ ''e1'' \<and>
              s_data rq = None \<and> s_json rq = Some (JDict diaper))
        signed_in (snd (update_journal_entry service ''e1'' diaper signed_in))"
proof -
  have a: "''userId'' \<in> set [''type'', ''startTime'', ''babyId'', ''userId'', ''data''] \<and>
           \<not> dict_has diaper_without_user ''userId''"
    by (simp add: dict_has_def diaper_without_user_def)
  have b: "list_all (dict_has diaper) [''type'', ''startTime'', ''babyId'', ''userId'', ''data'']"
    by (simp add: dict_has_def diaper_def)
  have 1: "update_journal_entry service ''e1'' diaper_without_user signed_in
             = (Inl ValueError, signed_in)"
    using a update_journal_entry_complete
            [of "''userId''" diaper_without_user service "''e1''" signed_in]
    by blast
  have 2: "gateway_step
        (\<lambda>rq. s_method rq = ''put'' \<and>
              s_url rq = BASE_ENDPOINT @ JOURNALS_CREATE_URI @ ''/'' @ ''e1'' \<and>
              s_data rq = None \<and> s_json rq = Some (JDict diaper))
        signed_in (snd (update_journal_entry service ''e1'' diaper signed_in))"
    using b update_journal_entry_complete [of "''userId''" diaper service "''e1''" signed_in]
    by blast
  show ?thesis
    using 1 2 by (simp add: journal_run)
qed

section \<open>Credential Manager: what a finished authentication stores\<close>

text \<open>
  C8. After a fresh login that succeeds on a reply of the identity provider with
  \<open>ExpiresIn = n\<close>, the stored expiry is the time of storing plus \<open>int (n / 2)\<close>
  seconds, which is \<open>n div 2\<close> for a lifetime that is not negative. Before that time
  the gateway's check leaves the token alone; from that time on it starts an
  authentication without waiting for it.
\<close>

theorem fresh_login_expiry:
  assumes "u_authenticate env FreshLogin st = (Inr (), st')"
    and "fst (cognito env (cognito_calls st)) = CognitoReplied status (AuthenticationResult ar)"
    and "ExpiresIn ar = Some n"
  shows "fst (snd (snd (security_token st'))) = Some (clock st' + timedelta_seconds (int_half n))
    \<and> (0 \<le> n \<longrightarrow> int_half n = n div 2)
    \<and> (t < clock st' + timedelta_seconds (int_half n) \<longrightarrow>
         check_token env' (st'\<lparr>clock := t\<rparr>) = (Inr (), st'\<lparr>clock := t\<rparr>))
    \<and> (clock st' + timedelta_seconds (int_half n) \<le> t \<longrightarrow>
         check_token env' (st'\<lparr>clock := t\<rparr>) =
           (case authenticate env' False (st'\<lparr>clock := t\<rparr>) of
              (Inl e, s) \<Rightarrow> (Inl e, s)
            | (Inr task, s) \<Rightarrow> (Inr (), s)))"
proof -
  from assms obtain token refresh where
    s: "security_token st' =
          (Some token, refresh, Some (clock st' + timedelta_seconds (int_half n)), Some (clock st'))"
    by (auto simp: u_authenticate_def u_api_authenticate_def Let_def datetime_plus_def
        split: if_splits option.splits sum.splits)
  show ?thesis
    using s by (auto simp: check_token_def int_half_def)
qed

theorem fresh_login_expiry_witness:
  "fst (snd (snd (security_token (snd (u_authenticate service FreshLogin newcomer)))))
     = Some (120001000 + 5400 * 1000000)
   \<and> check_token service ((snd (u_authenticate service FreshLogin newcomer))\<lparr>clock := 5520000999\<rparr>)
     = (Inr (), (snd (u_authenticate service FreshLogin newcomer))\<lparr>clock := 5520000999\<rparr>)"
proof -
  have r: "u_authenticate service FreshLogin newcomer
       = (Inr (), newcomer\<lparr>trace := [CognitoPosted (Some ''ann'') (Some ''secret'')],
                    clock := 120001000, cognito_calls := 1,
                    security_token := (Some ''Bearer id1'', Some ''r1'', Some 5520001000,
                                       Some 120001000)\<rparr>)"
    by (simp add: service_def newcomer_def init_def credential_defs Let_def)
  have c: "fst (cognito service (cognito_calls newcomer))
       = CognitoReplied 200 (AuthenticationResult
                             \<lparr>IdToken = Some ''id1'', RefreshToken = Some ''r1'',
                              ExpiresIn = Some 10800, TokenType = Some ''Bearer''\<rparr>)"
    by (simp add: service_def)
  show ?thesis
    using fresh_login_expiry [OF r c, of 10800 5520000999 service]
    by (simp add: r timedelta_seconds_def int_half_def)
qed

text \<open>
  C2, at a client whose token has run out. The authentication task takes the refresh
  exchange, the exchange succeeds and returns a new token, a new refresh token and a
  lifetime, and \<open>authenticate\<close> returns without an error; the stored tuple is the old one.
\<close>

theorem refresh_exchange_stores_nothing:
  "u_authenticate_branch expired = RefreshExchange (Some ''r1'')
   \<and> fst (u_refresh_token renewing (Some ''r1'') expired) = Inr (''Bearer id2'', Some ''r2'', 10800)
   \<and> fst (authenticate renewing True expired) = Inr None
   \<and> security_token (snd (authenticate renewing True expired))
       = (Some ''Bearer id1'', Some ''r1'', Some 5400000000, Some 0)
   \<and> authentication_task (snd (authenticate renewing True expired)) = None"
  by (simp add: renewing_def expired_def init_def transport_defs credential_defs Let_def)

section \<open>Request Gateway: the retry after a 401\<close>

text \<open>
  C1, at a client with a token that is not due, a service that refuses the first call
  with 401 and an identity provider that gives a new token. The caller gets the answer of
  the second call and the stored tuple holds the new token, but the second call went out
  with the old token in its Authorization header.
\<close>

theorem request_retry_sends_stale_token:
  "fst (request rejecting ''get'' ''json'' (BASE_ENDPOINT @ SESSION_URI) None None False signed_in)
     = Inr (JStr ''ok'')
   \<and> security_token (snd (request rejecting ''get'' ''json'' (BASE_ENDPOINT @ SESSION_URI)
                             None None False signed_in))
     = (Some ''Bearer id2'', Some ''r2'', Some 5400003000, Some 3000)
   \<and> trace (snd (request rejecting ''get'' ''json'' (BASE_ENDPOINT @ SESSION_URI)
                   None None False signed_in))
     = [Sent \<lparr>s_method = ''get'', s_url = BASE_ENDPOINT @ SESSION_URI,
              s_authorization = Some ''Bearer id1'', s_data = None, s_json = None\<rparr>,
        CognitoPosted (Some ''ann'') (Some ''secret''),
        Sent \<lparr>s_method = ''get'', s_url = BASE_ENDPOINT @ SESSION_URI,
              s_authorization = Some ''Bearer id1'', s_data = None, s_json = None\<rparr>]"
  by (simp add: rejecting_def signed_in_def init_def transport_defs credential_defs gateway_defs
      Let_def)

section \<open>The flag for invalid credentials\<close>

lemma registry_step_update_device_info:
  assumes "update_device_info env st = (r, st')"
  shows "registry_step any_get st st'"
proof -
  let ?l = "case last_state_update st of
              None \<Rightarrow> clock st - DEFAULT_DEVICE_UPDATE_INTERVAL | Some l \<Rightarrow> l"
  let ?s0 = "st\<lparr>last_state_update := Some ?l\<rparr>"
  show ?thesis
  proof (cases "clock st < ?l + DEFAULT_DEVICE_UPDATE_INTERVAL")
    case True
    then have "session_loop env (map fst (devices ?s0)) ?s0 = (r, st')"
      using assms by (simp add: update_device_info_def Let_def)
    from session_loop_step [OF this] have "registry_step (get_of SESSION_URI) st st'"
      by simp
    then show ?thesis
      by (rule registry_step_mono) (simp add: get_of_def any_get_def)
  next
    case False
    obtain x1 s1 where a: "load_account env ?s0 = (x1, s1)" by (cases "load_account env ?s0") auto
    obtain x2 s2 where b: "load_baby env s1 = (x2, s2)" by (cases "load_baby env s1") auto
    obtain x3 s3 where d: "u_get_device_details env s2 = (x3, s3)"
      by (cases "u_get_device_details env s2") auto
    have 1: "registry_step any_get st s1"
      using registry_step_load_account [OF a] by simp
    have 2: "registry_step any_get st s2"
      using 1 registry_step_load_baby [OF b] by (rule registry_step_trans)
    have 3: "registry_step any_get st s3"
      using 2 registry_step_get_device_details [OF d] by (rule registry_step_trans)
    have "st' = s1 \<or> st' = s2 \<or> st' = s3 \<or> st' = s3\<lparr>last_state_update := Some (clock s3)\<rparr>"
      using assms False a b d
      by (auto simp: update_device_info_def Let_def split: sum.splits)
    then show ?thesis using 1 2 3 by auto
  qed
qed

text \<open>
  C10. In every state that the operations of the client reach from a newly made client,
  the flag \<open>_invalid_credentials\<close> is false: the constructor and the two setters
  write false and no other operation writes it. So the second guard of
  \<open>authenticate\<close>, which tests this flag, never fires.
\<close>

theorem invalid_credentials_never_set:
  "reachable env st \<Longrightarrow> \<not> invalid_credentials st"
proof (induction rule: reachable.induct)
  case (r_init user pass now)
  show ?case by (simp add: init_def)
next
  case (r_set_username st user)
  show ?case by (simp add: set_username_def)
next
  case (r_set_password st pass)
  show ?case by (simp add: set_password_def)
next
  case (r_authenticate st wait)
  have "registry_step (\<lambda>r. False) st (snd (authenticate env wait st))"
    by (rule gateway_registry_step [OF gateway_step_authenticate]) (rule surjective_pairing)
  then show ?case using r_authenticate.IH by (simp add: registry_step_def)
next
  case (r_request st m rt url data json login_request)
  have "registry_step (\<lambda>r. s_method r = m \<and> s_url r = url \<and> s_data r = data \<and> s_json r = json)
          st (snd (request env m rt url data json login_request st))"
    by (rule gateway_registry_step [OF gateway_step_request]) (rule surjective_pairing)
  then show ?case using r_request.IH by (simp add: registry_step_def)
next
  case (r_get_account st)
  have "registry_step any_get st (snd (get_account env st))"
    by (rule gateway_registry_step [OF gateway_step_get_account]) (rule surjective_pairing)
  then show ?case using r_get_account.IH by (simp add: registry_step_def)
next
  case (r_get_babies_v10 st)
  have "registry_step any_get st (snd (get_babies_v10 env st))"
    by (rule gateway_registry_step [OF gateway_step_get_babies]) (rule surjective_pairing)
  then show ?case using r_get_babies_v10.IH by (simp add: registry_step_def)
next
  case (r_get_baby_for_account st)
  have "registry_step any_get st (snd (get_baby_for_account env st))"
    by (rule gateway_registry_step [OF gateway_step_get_baby]) (rule surjective_pairing)
  then show ?case using r_get_baby_for_account.IH by (simp add: registry_step_def)
next
  case (r_get_session_for_account st)
  have "registry_step (get_of SESSION_URI) st (snd (get_session_for_account env st))"
    by (rule gateway_registry_step [OF gateway_step_get_session]) (rule surjective_pairing)
  then show ?case using r_get_session_for_account.IH by (simp add: registry_step_def)
next
  case (r_get_configs_for_device st serial_number)
  have "registry_step any_get st (snd (get_configs_for_device env serial_number st))"
    by (rule gateway_registry_step [OF gateway_step_get_configs]) (rule surjective_pairing)
  then show ?case using r_get_configs_for_device.IH by (simp add: registry_step_def)
next
  case (r_get_device_details st)
  have "registry_step any_get st (snd (u_get_device_details env st))"
    by (rule registry_step_get_device_details) (rule surjective_pairing)
  then show ?case using r_get_device_details.IH by (simp add: registry_step_def)
next
  case (r_update_device_info st)
  have "registry_step any_get st (snd (update_device_info env st))"
    by (rule registry_step_update_device_info) (rule surjective_pairing)
  then show ?case using r_update_device_info.IH by (simp add: registry_step_def)
next
  case (r_update_journal_entry st entry_id updates)
  have "invalid_credentials (snd (update_journal_entry env entry_id updates st))
          = invalid_credentials st"
  proof (cases "list_all (dict_has updates) [''type'', ''startTime'', ''babyId'', ''userId'', ''data'']")
    case True
    have "registry_step (\<lambda>r. s_method r = ''put'' \<and>
              s_url r = BASE_ENDPOINT @ JOURNALS_CREATE_URI @ ''/'' @ entry_id \<and>
              s_data r = None \<and> s_json r = Some (JDict updates))
          st (snd (request env ''put'' ''json''
                     (BASE_ENDPOINT @ JOURNALS_CREATE_URI @ ''/'' @ entry_id)
                     None (Some (JDict updates)) False st))"
      by (rule gateway_registry_step [OF gateway_step_request]) (rule surjective_pairing)
    then show ?thesis using True
      by (simp add: update_journal_entry_def Let_def registry_step_def)
  next
    case False
    then show ?thesis
      unfolding update_journal_entry_def Let_def by (simp only: if_False snd_conv)
  qed
  then show ?case using r_update_journal_entry.IH by simp
next
  case (r_task_ends st)
  have "registry_step (\<lambda>r. False) st (finish_task env st)"
    by (rule gateway_registry_step [OF gateway_step_finish_task])
  then show ?case using r_task_ends.IH by (simp add: registry_step_def)
next
  case (r_time_passes st d)
  then show ?case by simp
qed

theorem invalid_credentials_never_set_witness:
  "\<not> invalid_credentials
       (snd (update_device_info service
              (snd (authenticate service True
                     (set_password (Some ''secret'') (init (Some ''ann'') None 0))))))"
  using invalid_credentials_never_set
          [OF r_update_device_info [OF r_authenticate [OF r_set_password [OF r_init]]]]
  by simp

section \<open>Journal Client: the two units of an entry\<close>

subsection \<open>How far a float is from the number it rounds\<close>

lemma round_half_even_bound: "\<bar>of_int (round_half_even y) - y\<bar> \<le> 1 / 2"
proof -
  have "of_int \<lfloor>y\<rfloor> \<le> y" "y < of_int \<lfloor>y\<rfloor> + 1"
    by linarith+
  then show ?thesis
    by (auto simp: round_half_even_def Let_def)
qed

lemma round_half_even_near:
  assumes "\<bar>y - of_int k\<bar> < 1 / 2"
  shows "round_half_even y = k"
proof -
  have "\<bar>of_int (round_half_even y) - y\<bar> \<le> 1 / 2" by (rule round_half_even_bound)
  then have "\<bar>(of_int (round_half_even y) :: rat) - of_int k\<bar> < 1"
    using assms by linarith
  then have "\<bar>(of_int (round_half_even y - k) :: rat)\<bar> < 1" by simp
  then have "\<bar>round_half_even y - k\<bar> < 1"
    by (metis of_int_abs of_int_less_1_iff)
  then show ?thesis by simp
qed

lemma bitlen_pos: "0 < n \<Longrightarrow> 1 \<le> bitlen n"
  by (auto simp: bitlen_alt_def)

lemma exponent_lower:
  assumes "0 < q"
  shows "2 powi (exponent q) \<le> q"
proof (cases "1 \<le> q")
  case True
  then have n: "0 < \<lfloor>q\<rfloor>" by simp
  have "2 ^ nat (bitlen \<lfloor>q\<rfloor> - 1) \<le> \<lfloor>q\<rfloor>"
    using bitlen_bounds [OF n] by simp
  then have "(of_int (2 ^ nat (bitlen \<lfloor>q\<rfloor> - 1)) :: rat) \<le> of_int \<lfloor>q\<rfloor>"
    by (simp only: of_int_le_iff)
  then have "(2 :: rat) ^ nat (bitlen \<lfloor>q\<rfloor> - 1) \<le> q"
    by (simp add: le_floor_iff)
  moreover have "0 \<le> bitlen \<lfloor>q\<rfloor> - 1"
    using bitlen_pos [OF n] by simp
  ultimately show ?thesis
    using True by (simp add: exponent_def power_int_def)
next
  case False
  define n where "n = \<lfloor>1 / q\<rfloor>"
  define j where "j = bitlen n - 1"
  have q1: "1 < 1 / q" using False assms by simp
  then have n: "0 < n" unfolding n_def by simp
  have j: "0 \<le> j" unfolding j_def using bitlen_pos [OF n] by simp
  have "n < 2 ^ nat (bitlen n)" using bitlen_bounds [OF n] by simp
  then have "n + 1 \<le> 2 ^ nat (j + 1)" unfolding j_def by simp
  then have "(of_int (n + 1) :: rat) \<le> of_int (2 ^ nat (j + 1))"
    by (simp only: of_int_le_iff)
  moreover have "1 / q < of_int (n + 1)" unfolding n_def by linarith
  ultimately have "1 / q < 2 ^ nat (j + 1)" by simp
  then have "1 < q * 2 ^ nat (j + 1)"
    using assms by (simp add: field_simps)
  then have lo: "1 / 2 ^ nat (j + 1) < q"
    by (simp add: field_simps)
  have e: "exponent q = (if q * 2 powi j = 1 then - j else - j - 1)"
    using False by (simp add: exponent_def j_def n_def Let_def)
  show ?thesis
  proof (cases "q * 2 powi j = 1")
    case True
    then have "q = 1 / 2 powi j"
      by (simp add: field_simps)
    then show ?thesis using e True by (simp add: power_int_minus_divide)
  next
    case False
    have "2 powi (- j - 1) = (1 :: rat) / 2 ^ nat (j + 1)"
      using j by (simp add: power_int_def nat_add_distrib field_simps)
    then show ?thesis using e False lo by simp
  qed
qed

lemma rn_error:
  assumes "1 / 2 ^ 20 \<le> \<bar>q\<bar>"
  shows "\<bar>rn q - q\<bar> \<le> \<bar>q\<bar> / 2 ^ 52"
proof -
  have q0: "q \<noteq> 0" "0 < \<bar>q\<bar>" using assms by auto
  define e where "e = max (exponent \<bar>q\<bar> - 52) (- 1074)"
  have p: "(0 :: rat) < 2 powi e" by simp
  have r: "rn q = of_int (round_half_even (q / 2 powi e)) * 2 powi e"
    using q0 by (simp add: rn_def e_def Let_def)
  have "\<bar>rn q - q\<bar> = \<bar>of_int (round_half_even (q / 2 powi e)) - q / 2 powi e\<bar> * 2 powi e"
  proof -
    have "rn q - q = (of_int (round_half_even (q / 2 powi e)) - q / 2 powi e) * 2 powi e"
      using p by (simp add: r field_simps)
    then show ?thesis using p by (simp add: abs_mult)
  qed
  also have "\<dots> \<le> 1 / 2 * 2 powi e"
    using round_half_even_bound [of "q / 2 powi e"] p by (intro mult_right_mono) auto
  finally have b: "\<bar>rn q - q\<bar> \<le> 2 powi e / 2" by simp
  show ?thesis
  proof (cases "- 1074 \<le> exponent \<bar>q\<bar> - 52")
    case True
    then have "e = exponent \<bar>q\<bar> - 52" by (simp add: e_def)
    then have "2 powi e = 2 powi (exponent \<bar>q\<bar>) / (2 :: rat) ^ 52"
      by (simp add: power_int_diff)
    then have "(2 :: rat) powi e \<le> \<bar>q\<bar> / 2 ^ 52"
      using exponent_lower [OF q0(2)] by (simp add: divide_right_mono)
    then show ?thesis using b q0 by linarith
  next
    case False
    then have "e = - 1074" by (simp add: e_def)
    then have "(2 :: rat) powi e = 1 / 2 ^ 1074"
      by (simp add: power_int_minus_divide)
    moreover have "(1 :: rat) / 2 ^ 1074 \<le> (1 / 2 ^ 20) / 2 ^ 52"
      by (simp add: field_simps)
    moreover have "(1 / 2 ^ 20) / 2 ^ 52 \<le> \<bar>q\<bar> / 2 ^ 52"
      using assms by (intro divide_right_mono) simp_all
    ultimately have "(2 :: rat) powi e \<le> \<bar>q\<bar> / 2 ^ 52"
      by simp
    then show ?thesis using b q0 by linarith
  qed
qed

lemma rn_error_le:
  assumes "1 / 2 ^ 20 \<le> q" and "q \<le> b"
  shows "rn q - q \<le> b / 2 ^ 52" and "q - rn q \<le> b / 2 ^ 52"
proof -
  have "\<bar>rn q - q\<bar> \<le> \<bar>q\<bar> / 2 ^ 52"
    using assms by (intro rn_error) simp
  also have "\<dots> \<le> b / 2 ^ 52"
    using assms by (intro divide_right_mono) simp_all
  finally have f: "\<bar>rn q - q\<bar> \<le> b / 2 ^ 52" .
  show "rn q - q \<le> b / 2 ^ 52"
    using f by (rule abs_le_D1)
  have "- (rn q - q) \<le> b / 2 ^ 52"
    using f by (rule abs_le_D2)
  then show "q - rn q \<le> b / 2 ^ 52"
    by simp
qed

lemma divide_bound:
  assumes "5 / 2 \<le> (c :: rat)" and "t \<le> d" and "- t \<le> d"
  shows "t / c \<le> d * (2 / 5)" and "- (t / c) \<le> d * (2 / 5)"
proof -
  have d: "\<bar>t\<bar> \<le> d" using assms by (simp add: abs_le_iff)
  have "\<bar>t / c\<bar> = \<bar>t\<bar> / c" using assms by simp
  also have "\<dots> \<le> \<bar>t\<bar> / (5 / 2)"
    using assms by (intro divide_left_mono) simp_all
  also have "\<dots> \<le> d / (5 / 2)"
    using d by (intro divide_right_mono) simp_all
  finally have f: "\<bar>t / c\<bar> \<le> d * (2 / 5)" by simp
  show "t / c \<le> d * (2 / 5)"
    using f by (rule abs_le_D1)
  show "- (t / c) \<le> d * (2 / 5)"
    using f by (rule abs_le_D2)
qed

lemma round_trip:
  assumes c: "5 / 2 \<le> c" "c \<le> 30" and k: "1 \<le> k" "k \<le> 10000000"
  shows "round2 (fdiv (round2 (fmul (rn (of_int k / 100)) c)) c) = rn (of_int k / 100)"
proof -
  define a :: rat where "a = of_int k / 100"
  define x where "x = rn a"
  define p where "p = rn (x * c)"
  define M where "M = round_half_even (p * 100)"
  define m where "m = rn (of_int M / 100)"
  define q where "q = rn (m / c)"
  define e1 where "e1 = x - a"
  define e2 where "e2 = p - x * c"
  define e3 where "e3 = of_int M - p * 100"
  define e4 where "e4 = m - of_int M / 100"
  define e5 where "e5 = q - m / c"
  have a: "1 / 100 \<le> a" "a \<le> 100000"
    using k by (simp_all add: a_def)
  have b1: "e1 \<le> 100000 / 2 ^ 52" "- e1 \<le> 100000 / 2 ^ 52"
    unfolding e1_def x_def using a rn_error_le [of a 100000] by simp_all
  have x1: "1 / 128 \<le> x"
    using b1 a unfolding e1_def by (simp; linarith)
  have x2: "x \<le> 100001"
    using b1 a unfolding e1_def by (simp; linarith)
  note x = x1 x2
  have xc: "5 / 256 \<le> x * c" "x * c \<le> 3000030"
  proof -
    have "(1 / 128) * (5 / 2) \<le> x * c"
      using x c by (intro mult_mono) simp_all
    then show "5 / 256 \<le> x * c" by simp
    have "x * c \<le> 100001 * 30"
      using x c by (intro mult_mono) simp_all
    then show "x * c \<le> 3000030" by simp
  qed
  have b2: "e2 \<le> 3000030 / 2 ^ 52" "- e2 \<le> 3000030 / 2 ^ 52"
    unfolding e2_def p_def using xc rn_error_le [of "x * c" 3000030] by simp_all
  have p1: "19 / 1000 \<le> p"
    using b2 xc unfolding e2_def by (simp; linarith)
  have p2: "p \<le> 3000031"
    using b2 xc unfolding e2_def by (simp; linarith)
  note p = p1 p2
  have "\<bar>e3\<bar> \<le> 1 / 2"
    unfolding e3_def M_def by (rule round_half_even_bound)
  then have b3: "e3 \<le> 1 / 2" "- e3 \<le> 1 / 2"
    by (simp_all add: abs_le_iff)
  have M1: "1 / 100 \<le> of_int M / (100 :: rat)"
    using b3 p unfolding e3_def by (simp; linarith)
  have M2: "of_int M / (100 :: rat) \<le> 3000032"
    using b3 p unfolding e3_def by (simp; linarith)
  note M = M1 M2
  have b4: "e4 \<le> 3000032 / 2 ^ 52" "- e4 \<le> 3000032 / 2 ^ 52"
    unfolding e4_def m_def using M rn_error_le [of "of_int M / 100" 3000032] by simp_all
  have m1: "1 / 128 \<le> m"
    using b4 M unfolding e4_def by (simp; linarith)
  have m2: "m \<le> 3000033"
    using b4 M unfolding e4_def by (simp; linarith)
  note m = m1 m2
  have mc: "1 / 2 ^ 20 \<le> m / c" "m / c \<le> 1200014"
  proof -
    have "(1 :: rat) / 2 ^ 20 \<le> (1 / 128) / 30" by simp
    also have "(1 / 128) / 30 \<le> m / c"
      using m c by (intro frac_le) simp_all
    finally show "1 / 2 ^ 20 \<le> m / c" .
    have "m / c \<le> 3000033 / (5 / 2)"
      using m c by (intro frac_le) simp_all
    also have "(3000033 :: rat) / (5 / 2) \<le> 1200014" by simp
    finally show "m / c \<le> 1200014" .
  qed
  have b5: "e5 \<le> 1200014 / 2 ^ 52" "- e5 \<le> 1200014 / 2 ^ 52"
    unfolding e5_def q_def using mc rn_error_le [of "m / c" 1200014] by simp_all
  have c0: "c \<noteq> 0" using c by simp
  have eq: "q * 100 - of_int k = 100 * e1 + 100 * (e2 / c) + e3 / c + 100 * (e4 / c) + 100 * e5"
    unfolding e1_def e2_def e3_def e4_def e5_def a_def using c0 by (simp add: field_simps)
  note d2 = divide_bound [OF c(1) b2]
  note d3 = divide_bound [OF c(1) b3]
  note d4 = divide_bound [OF c(1) b4]
  have u1: "q * 100 - of_int k < 1 / 2"
    unfolding eq using b1 b5 d2 d3 d4 by (simp; linarith)
  have u2: "- (q * 100 - of_int k) < 1 / 2"
    unfolding eq using b1 b5 d2 d3 d4 by (simp; linarith)
  have "\<bar>q * 100 - of_int k\<bar> < 1 / 2"
    unfolding abs_less_iff using u1 u2 by (intro conjI)
  then have "round_half_even (q * 100) = k"
    by (rule round_half_even_near)
  then show ?thesis
    by (simp add: round2_def fdiv_def fmul_def q_def m_def M_def p_def x_def a_def)
qed


lemma rn_error_any: "\<bar>rn q - q\<bar> \<le> (\<bar>q\<bar> + 1) / 2 ^ 52"
proof (cases "q = 0")
  case True
  then show ?thesis by (simp add: rn_def)
next
  case q: False
  then have q0: "0 < \<bar>q\<bar>" by simp
  define e where "e = max (exponent \<bar>q\<bar> - 52) (- 1074)"
  have p: "(0 :: rat) < 2 powi e" by simp
  have r: "rn q = of_int (round_half_even (q / 2 powi e)) * 2 powi e"
    using q by (simp add: rn_def e_def Let_def)
  have "\<bar>rn q - q\<bar> = \<bar>of_int (round_half_even (q / 2 powi e)) - q / 2 powi e\<bar> * 2 powi e"
  proof -
    have "rn q - q = (of_int (round_half_even (q / 2 powi e)) - q / 2 powi e) * 2 powi e"
      using p by (simp add: r field_simps)
    then show ?thesis using p by (simp add: abs_mult)
  qed
  also have "\<dots> \<le> 1 / 2 * 2 powi e"
    using round_half_even_bound [of "q / 2 powi e"] p by (intro mult_right_mono) auto
  finally have b: "\<bar>rn q - q\<bar> \<le> 2 powi e / 2" by simp
  have s: "(\<bar>q\<bar> + 1) / 2 ^ 52 = \<bar>q\<bar> / 2 ^ 52 + 1 / 2 ^ 52"
    by (simp add: add_divide_distrib)
  have g: "r \<le> B + C" if "a \<le> B" "r \<le> a / 2" "0 < a" "0 \<le> C" for a B C r :: rat
    using that by linarith
  have h: "r \<le> B + C" if "a \<le> C" "r \<le> a / 2" "0 < a" "0 \<le> B" for a B C r :: rat
    using that by linarith
  show ?thesis
  proof (cases "- 1074 \<le> exponent \<bar>q\<bar> - 52")
    case True
    then have "e = exponent \<bar>q\<bar> - 52" by (simp add: e_def)
    then have "2 powi e = 2 powi (exponent \<bar>q\<bar>) / (2 :: rat) ^ 52"
      by (simp add: power_int_diff)
    then have "(2 :: rat) powi e \<le> \<bar>q\<bar> / 2 ^ 52"
      using exponent_lower [OF q0] by (simp add: divide_right_mono)
    then show ?thesis unfolding s by (rule g [OF _ b p]) simp
  next
    case False
    then have "e = - 1074" by (simp add: e_def)
    then have "(2 :: rat) powi e = 1 / 2 ^ 1074"
      by (simp add: power_int_minus_divide)
    moreover have "(1 :: rat) / 2 ^ 1074 \<le> 1 / 2 ^ 52"
      by (simp add: field_simps)
    ultimately have "(2 :: rat) powi e \<le> 1 / 2 ^ 52"
      by simp
    then show ?thesis unfolding s by (rule h [OF _ b p]) simp
  qed
qed

lemma rn_error_within:
  assumes "q \<le> b" and "- q \<le> b"
  shows "rn q - q \<le> (b + 1) / 2 ^ 52" and "- (rn q - q) \<le> (b + 1) / 2 ^ 52"
proof -
  have "\<bar>q\<bar> \<le> b" using assms by (simp add: abs_le_iff)
  then have "(\<bar>q\<bar> + 1) / 2 ^ 52 \<le> (b + 1) / 2 ^ 52"
    by (intro divide_right_mono) simp_all
  then have f: "\<bar>rn q - q\<bar> \<le> (b + 1) / 2 ^ 52"
    using rn_error_any [of q] by linarith
  show "rn q - q \<le> (b + 1) / 2 ^ 52"
    using f by (rule abs_le_D1)
  show "- (rn q - q) \<le> (b + 1) / 2 ^ 52"
    using f by (rule abs_le_D2)
qed

lemma times_bound:
  assumes "0 \<le> (c :: rat)" "c \<le> 30" and "t \<le> d" and "- t \<le> d"
  shows "c * t \<le> 30 * d" and "- (c * t) \<le> 30 * d"
proof -
  have d: "\<bar>t\<bar> \<le> d" using assms by (simp add: abs_le_iff)
  have "\<bar>c * t\<bar> = c * \<bar>t\<bar>" using assms by (simp add: abs_mult)
  also have "\<dots> \<le> 30 * d"
    using assms d by (intro mult_mono) simp_all
  finally have f: "\<bar>c * t\<bar> \<le> 30 * d" .
  show "c * t \<le> 30 * d"
    using f by (rule abs_le_D1)
  show "- (c * t) \<le> 30 * d"
    using f by (rule abs_le_D2)
qed

lemma metric_round_trip:
  assumes c: "5 / 2 \<le> c" "c \<le> 30" and y: "0 \<le> y" "y \<le> 1000000"
  shows "\<bar>round2 (fmul (round2 (fdiv y c)) c) - y\<bar> \<le> (c + 1) / 200 + 1 / 1000000"
proof -
  define q where "q = rn (y / c)"
  define K where "K = round_half_even (q * 100)"
  define x where "x = rn (of_int K / 100)"
  define p where "p = rn (x * c)"
  define M where "M = round_half_even (p * 100)"
  define z where "z = rn (of_int M / 100)"
  define d1 where "d1 = q - y / c"
  define d2 where "d2 = of_int K / 100 - q"
  define d3 where "d3 = x - of_int K / 100"
  define d4 where "d4 = p - x * c"
  define d5 where "d5 = of_int M / 100 - p"
  define d6 where "d6 = z - of_int M / 100"
  have c0: "0 \<le> c" "c \<noteq> 0" using c by simp_all
  have yc: "y / c \<le> 400000" "- (y / c) \<le> 400000"
  proof -
    have "y / c \<le> 1000000 / (5 / 2)"
      using c y by (intro frac_le) simp_all
    then show "y / c \<le> 400000" by simp
    have "0 \<le> y / c" using c y by simp
    then show "- (y / c) \<le> 400000" by simp
  qed
  have b1: "d1 \<le> 400001 / 2 ^ 52" "- d1 \<le> 400001 / 2 ^ 52"
    unfolding d1_def q_def using rn_error_within [OF yc] by simp_all
  have q: "q \<le> 400001" "- q \<le> 400001"
    using b1 yc unfolding d1_def by (simp; linarith)+
  have "\<bar>of_int K - q * 100\<bar> \<le> 1 / 2"
    unfolding K_def by (rule round_half_even_bound)
  then have "of_int K - q * 100 \<le> 1 / 2" "- (of_int K - q * 100) \<le> 1 / 2"
    by (simp_all only: abs_le_D1 abs_le_D2)
  then have b2: "d2 \<le> 1 / 200" "- d2 \<le> 1 / 200"
    unfolding d2_def by (simp; linarith)+
  have K: "of_int K / (100 :: rat) \<le> 400002" "- (of_int K / (100 :: rat)) \<le> 400002"
    using b2 q unfolding d2_def by (simp; linarith)+
  have b3: "d3 \<le> 400003 / 2 ^ 52" "- d3 \<le> 400003 / 2 ^ 52"
    unfolding d3_def x_def using rn_error_within [OF K] by simp_all
  have x: "x \<le> 400003" "- x \<le> 400003"
    using b3 K unfolding d3_def by (simp; linarith)+
  have xc: "x * c \<le> 12000090" "- (x * c) \<le> 12000090"
    using times_bound [OF c0(1) c(2) x] by (simp_all add: mult.commute)
  have b4: "d4 \<le> 12000091 / 2 ^ 52" "- d4 \<le> 12000091 / 2 ^ 52"
    unfolding d4_def p_def using rn_error_within [OF xc] by simp_all
  have p: "p \<le> 12000091" "- p \<le> 12000091"
    using b4 xc unfolding d4_def by (simp; linarith)+
  have "\<bar>of_int M - p * 100\<bar> \<le> 1 / 2"
    unfolding M_def by (rule round_half_even_bound)
  then have "of_int M - p * 100 \<le> 1 / 2" "- (of_int M - p * 100) \<le> 1 / 2"
    by (simp_all only: abs_le_D1 abs_le_D2)
  then have b5: "d5 \<le> 1 / 200" "- d5 \<le> 1 / 200"
    unfolding d5_def by (simp; linarith)+
  have M: "of_int M / (100 :: rat) \<le> 12000092" "- (of_int M / (100 :: rat)) \<le> 12000092"
    using b5 p unfolding d5_def by (simp; linarith)+
  have b6: "d6 \<le> 12000093 / 2 ^ 52" "- d6 \<le> 12000093 / 2 ^ 52"
    unfolding d6_def z_def using rn_error_within [OF M] by simp_all
  have eq: "z - y = d6 + d5 + d4 + c * d3 + c * d2 + c * d1"
    unfolding d1_def d2_def d3_def d4_def d5_def d6_def using c0 by (simp add: field_simps)
  note t1 = times_bound [OF c0(1) c(2) b1]
  note t3 = times_bound [OF c0(1) c(2) b3]
  have t2: "c * d2 \<le> c / 200" "- (c * d2) \<le> c / 200"
  proof -
    have "\<bar>d2\<bar> \<le> 1 / 200" using b2 by (simp add: abs_le_iff)
    then have "c * \<bar>d2\<bar> \<le> c * (1 / 200)"
      using c0 by (intro mult_left_mono) simp_all
    then have f: "\<bar>c * d2\<bar> \<le> c / 200"
      using c0 by (simp add: abs_mult)
    show "c * d2 \<le> c / 200" using f by (rule abs_le_D1)
    show "- (c * d2) \<le> c / 200" using f by (rule abs_le_D2)
  qed
  have s: "(c + 1) / 200 = c / 200 + 1 / 200"
    by (simp add: add_divide_distrib)
  have u1: "z - y \<le> (c + 1) / 200 + 1 / 1000000"
    unfolding eq s using b4 b5 b6 t1 t2 t3 by (simp; linarith)
  have u2: "- (z - y) \<le> (c + 1) / 200 + 1 / 1000000"
    unfolding eq s using b4 b5 b6 t1 t2 t3 by (simp; linarith)
  have "\<bar>z - y\<bar> \<le> (c + 1) / 200 + 1 / 1000000"
    unfolding abs_le_iff using u1 u2 by (intro conjI)
  then show ?thesis
    by (simp add: round2_def fdiv_def fmul_def z_def M_def p_def x_def K_def q_def)
qed

subsection \<open>The conversions\<close>

lemma imperial_round_trip:
  assumes c: "5 / 2 \<le> c" "c \<le> 30" and x: "0 \<le> x" "x \<le> 1000000"
  shows "\<bar>round2 (fdiv (round2 (fmul x c)) c) - x\<bar> \<le> 1 / 100"
proof -
  define p where "p = rn (x * c)"
  define M where "M = round_half_even (p * 100)"
  define m where "m = rn (of_int M / 100)"
  define q where "q = rn (m / c)"
  define K where "K = round_half_even (q * 100)"
  define z where "z = rn (of_int K / 100)"
  define d1 where "d1 = p - x * c"
  define d2 where "d2 = of_int M / 100 - p"
  define d3 where "d3 = m - of_int M / 100"
  define d4 where "d4 = q - m / c"
  define d5 where "d5 = of_int K / 100 - q"
  define d6 where "d6 = z - of_int K / 100"
  have c0: "0 \<le> c" "c \<noteq> 0" "0 < c" using c by simp_all
  have xc: "x * c \<le> 30000000" "- (x * c) \<le> 30000000"
  proof -
    have "x * c \<le> 1000000 * 30"
      using c x by (intro mult_mono) simp_all
    then show "x * c \<le> 30000000" by simp
    have "0 \<le> x * c" using c0 x by simp
    then show "- (x * c) \<le> 30000000" by simp
  qed
  have b1: "d1 \<le> 30000001 / 2 ^ 52" "- d1 \<le> 30000001 / 2 ^ 52"
    unfolding d1_def p_def using rn_error_within [OF xc] by simp_all
  have p: "p \<le> 30000001" "- p \<le> 30000001"
    using b1 xc unfolding d1_def by (simp; linarith)+
  have "\<bar>of_int M - p * 100\<bar> \<le> 1 / 2"
    unfolding M_def by (rule round_half_even_bound)
  then have "of_int M - p * 100 \<le> 1 / 2" "- (of_int M - p * 100) \<le> 1 / 2"
    by (simp_all only: abs_le_D1 abs_le_D2)
  then have b2: "d2 \<le> 1 / 200" "- d2 \<le> 1 / 200"
    unfolding d2_def by (simp; linarith)+
  have M: "of_int M / (100 :: rat) \<le> 30000002" "- (of_int M / (100 :: rat)) \<le> 30000002"
    using b2 p unfolding d2_def by (simp; linarith)+
  have b3: "d3 \<le> 30000003 / 2 ^ 52" "- d3 \<le> 30000003 / 2 ^ 52"
    unfolding d3_def m_def using rn_error_within [OF M] by simp_all
  have m: "m \<le> 30000003" "- m \<le> 30000003"
    using b3 M unfolding d3_def by (simp; linarith)+
  have mc: "m / c \<le> 30000003 * (2 / 5)" "- (m / c) \<le> 30000003 * (2 / 5)"
    using divide_bound [OF c(1) m] .
  have e: "(30000003 :: rat) * (2 / 5) \<le> 12000002"
    by simp
  have mc': "m / c \<le> 12000002" "- (m / c) \<le> 12000002"
    by (rule order_trans [OF mc(1) e], rule order_trans [OF mc(2) e])
  have b4: "d4 \<le> 12000003 / 2 ^ 52" "- d4 \<le> 12000003 / 2 ^ 52"
    unfolding d4_def q_def using rn_error_within [OF mc'] by simp_all
  have q: "q \<le> 12000003" "- q \<le> 12000003"
    using b4 mc' unfolding d4_def by (simp; linarith)+
  have "\<bar>of_int K - q * 100\<bar> \<le> 1 / 2"
    unfolding K_def by (rule round_half_even_bound)
  then have "of_int K - q * 100 \<le> 1 / 2" "- (of_int K - q * 100) \<le> 1 / 2"
    by (simp_all only: abs_le_D1 abs_le_D2)
  then have b5: "d5 \<le> 1 / 200" "- d5 \<le> 1 / 200"
    unfolding d5_def by (simp; linarith)+
  have K: "of_int K / (100 :: rat) \<le> 12000004" "- (of_int K / (100 :: rat)) \<le> 12000004"
    using b5 q unfolding d5_def by (simp; linarith)+
  have b6: "d6 \<le> 12000005 / 2 ^ 52" "- d6 \<le> 12000005 / 2 ^ 52"
    unfolding d6_def z_def using rn_error_within [OF K] by simp_all
  have eq: "z - x = d6 + d5 + d4 + d3 / c + d2 / c + d1 / c"
    unfolding d1_def d2_def d3_def d4_def d5_def d6_def using c0 by (simp add: field_simps)
  note t1 = divide_bound [OF c(1) b1]
  note t2 = divide_bound [OF c(1) b2]
  note t3 = divide_bound [OF c(1) b3]
  have u1: "z - x \<le> 1 / 100"
    unfolding eq using b4 b5 b6 t1 t2 t3 by (simp; linarith)
  have u2: "- (z - x) \<le> 1 / 100"
    unfolding eq using b4 b5 b6 t1 t2 t3 by (simp; linarith)
  have "\<bar>z - x\<bar> \<le> 1 / 100"
    unfolding abs_le_iff using u1 u2 by (intro conjI)
  then show ?thesis
    by (simp add: round2_def fdiv_def fmul_def z_def K_def q_def m_def M_def p_def)
qed

lemma round_trip_zero: "round2 (fdiv (round2 (fmul (rn 0) c)) c) = rn 0"
  by (simp add: round2_def fdiv_def fmul_def rn_def round_half_even_def)

lemma fill_missing_round_trip:
  assumes "5 / 2 \<le> c" "c \<le> 30" and "0 \<le> k" "k \<le> 10000000" and "i = rn (of_int k / 100)"
  shows "fill_missing c None (Some (round2 (fmul i c))) = (Some i, Some (round2 (fmul i c)))"
proof (cases "k = 0")
  case True
  then show ?thesis
    using assms round_trip_zero [of c] by (simp add: fill_missing_def)
next
  case False
  then have "1 \<le> k" using assms by simp
  then show ?thesis
    using assms round_trip [of c k] by (simp add: fill_missing_def)
qed

lemma factors:
  "5 / 2 \<le> rn (295735 / 10000)" "rn (295735 / 10000) \<le> 30"
  "5 / 2 \<le> rn (283495 / 10000)" "rn (283495 / 10000) \<le> 30"
  "5 / 2 \<le> rn (254 / 100)" "rn (254 / 100) \<le> 30"
  by code_simp+

lemma conversions_cases:
  assumes "(factor, f) \<in> set (conversions milk_type)" and "milk_type \<in> set FEEDING_TYPES"
  shows "5 / 2 \<le> factor \<and> factor \<le> 30
    \<and> (\<forall>imperial metric. f imperial metric =
          (if imperial = None \<and> metric = None then Inl ValueError
           else Inr (fill_missing factor imperial metric)))"
  using assms factors
  by (auto simp: conversions_def create_feeding_entry_amounts_def
      create_weight_entry_weights_def create_height_entry_heights_def
      create_head_entry_circumferences_def)

text \<open>
  C7 (as amended). For the bottle-feeding volume, the weight, the height and the head
  circumference: when only the imperial value is given, the metric value is the
  imperial one times the factor, rounded to two decimals; when only the metric value
  is given, the imperial value is the metric one divided by the factor, rounded to
  two decimals. An imperial value from 0 to 1000000 that is converted to metric comes
  back, when the metric value is converted to imperial, within a hundredth, and
  unchanged when it has two decimals and is at most 100000. A metric value from 0 to
  1000000 that is converted to imperial comes back, when the imperial value is
  converted to metric, within half a hundredth of the imperial unit and half a
  hundredth of the metric one: \<open>(factor + 1) / 200\<close>, and the rounding of the floats,
  below a millionth.
\<close>

theorem unit_conversions:
  assumes "(factor, f) \<in> set (conversions milk_type)" and "milk_type \<in> set FEEDING_TYPES"
  shows "f (Some i) None = Inr (Some i, Some (round2 (fmul i factor)))
    \<and> f None (Some m) = Inr (Some (round2 (fdiv m factor)), Some m)
    \<and> (0 \<le> i \<and> i \<le> 1000000 \<longrightarrow>
         \<bar>round2 (fdiv (round2 (fmul i factor)) factor) - i\<bar> \<le> 1 / 100)
    \<and> (0 \<le> k \<and> k \<le> 10000000 \<and> i = rn (of_int k / 100) \<longrightarrow>
         f None (Some (round2 (fmul i factor))) = Inr (Some i, Some (round2 (fmul i factor))))
    \<and> (0 \<le> m \<and> m \<le> 1000000 \<longrightarrow>
         \<bar>round2 (fmul (round2 (fdiv m factor)) factor) - m\<bar> \<le> (factor + 1) / 200 + 1 / 1000000)"
proof -
  note c = conversions_cases [OF assms]
  have "f (Some i) None = Inr (Some i, Some (round2 (fmul i factor)))"
    using c by (simp add: fill_missing_def)
  moreover have "f None (Some m) = Inr (Some (round2 (fdiv m factor)), Some m)"
    using c by (simp add: fill_missing_def)
  moreover have "\<bar>round2 (fdiv (round2 (fmul i factor)) factor) - i\<bar> \<le> 1 / 100"
    if "0 \<le> i" "i \<le> 1000000"
    using c imperial_round_trip [of factor i] that by simp
  moreover have "f None (Some (round2 (fmul i factor))) = Inr (Some i, Some (round2 (fmul i factor)))"
    if "0 \<le> k" "k \<le> 10000000" "i = rn (of_int k / 100)"
    using c fill_missing_round_trip [of factor k i] that by simp
  moreover have "\<bar>round2 (fmul (round2 (fdiv m factor)) factor) - m\<bar> \<le> (factor + 1) / 200 + 1 / 1000000"
    if "0 \<le> m" "m \<le> 1000000"
    using c metric_round_trip [of factor m] that by simp
  ultimately show ?thesis by blast
qed

lemma examples_of_ounces:
  "9 / 2 = rn (of_int 450 / 100)"
  "round2 (fmul (9 / 2) (rn (295735 / 10000))) = rn (13308 / 100)"
  "round2 (fdiv 100 (rn (295735 / 10000))) = rn (338 / 100)"
  "round2 (fmul (rn (338 / 100)) (rn (295735 / 10000))) = rn (9996 / 100)"
  "round2 (fmul (rn (412501 / 100000)) (rn (295735 / 10000))) = rn (12199 / 100)"
  "round2 (fdiv (rn (12199 / 100)) (rn (295735 / 10000))) = rn (412 / 100)"
  "0 \<le> rn (412501 / 100000) \<and> rn (412501 / 100000) \<le> 1000000"
  by code_simp+

theorem unit_conversions_witness:
  "create_feeding_entry_amounts BOTTLE_FEEDING ''formula'' (Some (9 / 2)) None
     = Inr (Some (9 / 2), Some (rn (13308 / 100)))
   \<and> create_feeding_entry_amounts BOTTLE_FEEDING ''formula'' None (Some 100)
     = Inr (Some (rn (338 / 100)), Some 100)
   \<and> create_feeding_entry_amounts BOTTLE_FEEDING ''formula'' None (Some (rn (13308 / 100)))
     = Inr (Some (9 / 2), Some (rn (13308 / 100)))
   \<and> \<bar>rn (9996 / 100) - 100\<bar> \<le> (rn (295735 / 10000) + 1) / 200 + 1 / 1000000
   \<and> create_feeding_entry_amounts BOTTLE_FEEDING ''formula'' (Some (rn (412501 / 100000))) None
     = Inr (Some (rn (412501 / 100000)), Some (rn (12199 / 100)))
   \<and> create_feeding_entry_amounts BOTTLE_FEEDING ''formula'' None (Some (rn (12199 / 100)))
     = Inr (Some (rn (412 / 100)), Some (rn (12199 / 100)))
   \<and> \<bar>rn (412 / 100) - rn (412501 / 100000)\<bar> \<le> 1 / 100"
proof -
  have a: "(rn (295735 / 10000), create_feeding_entry_amounts BOTTLE_FEEDING ''formula'')
      \<in> set (conversions ''formula'')"
    by (simp add: conversions_def)
  have b: "''formula'' \<in> set FEEDING_TYPES"
    by (simp add: FEEDING_TYPES_def)
  have k: "(0 :: int) \<le> 450 \<and> (450 :: int) \<le> 10000000 \<and> 9 / 2 = rn (of_int 450 / 100)"
    by (intro conjI examples_of_ounces(1)) simp_all
  have m: "(0 :: rat) \<le> 100 \<and> (100 :: rat) \<le> 1000000"
    by simp
  show ?thesis
    unfolding examples_of_ounces(2) [symmetric] examples_of_ounces(4) [symmetric]
      examples_of_ounces(3) [symmetric] examples_of_ounces(6) [symmetric]
      examples_of_ounces(5) [symmetric]
    using unit_conversions [OF a b, where i = "9 / 2" and m = 100 and k = 450]
      unit_conversions [OF a b, where i = "rn (412501 / 100000)"
        and m = "round2 (fmul (rn (412501 / 100000)) (rn (295735 / 10000)))" and k = 0]
      k m examples_of_ounces(7)
    by blast
qed

text \<open>
  C7, as the specification has it, lets a metric value come back from the
  imperial one within the rounding of two decimals. One hundred millilitres are 3.38
  fluid ounces, and 3.38 fluid ounces are 99.96 millilitres: four hundredths away.
\<close>

theorem metric_round_trip_counterexample:
  "create_feeding_entry_amounts BOTTLE_FEEDING ''formula'' None (Some 100)
     = Inr (Some (rn (338 / 100)), Some 100)
   \<and> create_feeding_entry_amounts BOTTLE_FEEDING ''formula'' (Some (rn (338 / 100))) None
     = Inr (Some (rn (338 / 100)), Some (rn (9996 / 100)))
   \<and> 1 / 100 < \<bar>rn (9996 / 100) - 100\<bar>"
  by code_simp

section \<open>Request Gateway: two callers\<close>

subsection \<open>One task at a time\<close>

lemma one_at_a_time_snoc:
  "one_at_a_time b (es @ [e]) \<longleftrightarrow>
     one_at_a_time b es \<and>
     (case e of Created \<Rightarrow> \<not> (if es = [] then b else last es = Created)
              | Ended \<Rightarrow> (if es = [] then b else last es = Created))"
proof (induction es arbitrary: b)
  case Nil
  then show ?case by (cases e) auto
next
  case (Cons x xs)
  then show ?case by (cases x; cases e) auto
qed

lemma one_task_created:
  assumes "one_task st" and "authentication_task st = None"
  shows "one_task (st\<lparr>authentication_task := Some (Running j), tasks := tasks st @ [Created]\<rparr>)"
  using assms by (auto simp: one_task_def under_way_def one_at_a_time_snoc)

lemma one_task_ended:
  assumes "one_task st" and "authentication_task st = Some (Running j)"
  shows "one_task (st\<lparr>authentication_task := Some (Finished x), tasks := tasks st @ [Ended]\<rparr>)"
  using assms by (auto simp: one_task_def under_way_def one_at_a_time_snoc)

lemma one_task_cleared:
  assumes "one_task st" and "authentication_task st = Some (Finished x)"
  shows "one_task (st\<lparr>authentication_task := None\<rparr>)"
  using assms by (auto simp: one_task_def)

lemma one_task_fields [simp]:
  "one_task (st\<lparr>trace := a\<rparr>) = one_task st"
  "one_task (st\<lparr>clock := b\<rparr>) = one_task st"
  "one_task (st\<lparr>main_calls := c\<rparr>) = one_task st"
  "one_task (st\<lparr>refresh_calls := d\<rparr>) = one_task st"
  "one_task (st\<lparr>cognito_calls := e\<rparr>) = one_task st"
  "one_task (st\<lparr>dispatches := f\<rparr>) = one_task st"
  "one_task (st\<lparr>security_token := g\<rparr>) = one_task st"
  by (simp_all add: one_task_def)

lemma u_authenticate_keeps:
  assumes "u_authenticate env j st = (r, st')"
  shows "tasks st' = tasks st \<and> authentication_task st' = authentication_task st"
  using assms
  by (auto simp: u_authenticate_def u_api_authenticate_def u_refresh_token_def record_refresh_def
      Let_def
      split: job.splits prod.splits sum.splits cognito_reply.splits cognito_body.splits
        option.splits if_splits expires_in.splits)

lemma one_task_finish_task: "one_task st \<Longrightarrow> one_task (finish_task env st)"
proof (cases "authentication_task st")
  case None
  then show "one_task st \<Longrightarrow> ?thesis" by (simp add: finish_task_def)
next
  case (Some t)
  assume o: "one_task st"
  show ?thesis
  proof (cases t)
    case (Finished x)
    then show ?thesis using Some o by (simp add: finish_task_def)
  next
    case (Running j)
    obtain r s where u: "u_authenticate env j st = (r, s)"
      by (cases "u_authenticate env j st") auto
    note k = u_authenticate_keeps [OF u]
    have "one_task s"
      using o k by (simp add: one_task_def)
    moreover have "authentication_task s = Some (Running j)"
      using k Some Running by simp
    ultimately have "one_task (s\<lparr>authentication_task := Some (Finished x), tasks := tasks s @ [Ended]\<rparr>)" for x
      by (rule one_task_ended)
    then show ?thesis
      using Some Running u by (cases r) (simp_all add: finish_task_def)
  qed
qed

lemma one_task_authenticate:
  assumes "authenticate env wait st = (r, st')" and "one_task st"
  shows "one_task st'"
proof -
  let ?st1 = "if authentication_task st = None
              then st\<lparr>authentication_task := Some (Running (u_authenticate_branch st)),
                      tasks := tasks st @ [Created]\<rparr>
              else st"
  have 1: "one_task ?st1"
    using assms(2) by (simp add: one_task_created)
  have 2: "one_task (finish_task env ?st1)"
    using 1 by (rule one_task_finish_task)
  have 3: "one_task (s\<lparr>authentication_task := None\<rparr>)"
    if "one_task s" "\<And>j. authentication_task s \<noteq> Some (Running j)" for s
    using that by (auto simp: one_task_def)
  have 4: "authentication_task (finish_task env ?st1) \<noteq> Some (Running j)" for j
    by (auto simp: finish_task_def split: option.splits task.splits prod.splits sum.splits)
  show ?thesis
    using assms 1 2 3 [OF 2 4]
    by (auto simp: authenticate_def Let_def split: if_splits option.splits task.splits)
qed


lemma one_task_dispatch:
  assumes "dispatch env name rq st = (r, st')" and "one_task st"
  shows "one_task st'"
  using assms one_task_finish_task [of st env]
  by (auto simp: dispatch_def record_main_def Let_def split: prod.splits if_splits)

lemma one_task_harvest:
  assumes "harvest env st = (r, st')" and "one_task st"
  shows "one_task st'"
proof (cases "authentication_task st = None")
  case True
  then show ?thesis using assms by (simp add: harvest_def)
next
  case False
  obtain x s where a: "authenticate env False st = (x, s)"
    by (cases "authenticate env False st") auto
  have o: "one_task s"
    using a assms(2) by (rule one_task_authenticate)
  have c: "one_task (s\<lparr>authentication_task := None\<rparr>)"
    if "authentication_task s = Some (Finished y)" for y
    using o that by (rule one_task_cleared)
  have t: "x = Inr t \<Longrightarrow> authentication_task s = t" for t
    using a by (auto simp: authenticate_def Let_def split: if_splits)
  show ?thesis
    using assms(1) False a o c t
    by (auto simp: harvest_def split: sum.splits option.splits task.splits if_splits)
qed

lemma one_task_check_token:
  assumes "check_token env st = (r, st')" and "one_task st"
  shows "one_task st'"
  using assms
  by (auto simp: check_token_def split: prod.splits if_splits option.splits sum.splits
      dest: one_task_authenticate)

lemma one_task_clear_token [simp]: "one_task (clear_token st) = one_task st"
  by (simp add: clear_token_def split: prod.splits)

lemma one_task_on_error:
  assumes "on_error env err st = (r, st')" and "one_task st"
  shows "one_task st'"
  using assms
  by (auto simp: on_error_def split: error.splits if_splits prod.splits sum.splits
      dest!: one_task_authenticate)

lemma one_task_send_authorized:
  assumes "send_authorized env name method url data json st = (r, st')" and "one_task st"
  shows "one_task st'"
proof -
  have d: "dispatch env name rq s = (x, s') \<Longrightarrow> one_task s \<Longrightarrow> one_task s'" for rq s x s'
    by (rule one_task_dispatch)
  have a: "authenticate env w (clear_token s) = (x, s') \<Longrightarrow> one_task s \<Longrightarrow> one_task s'"
    for w s x s'
    using one_task_authenticate [of env w "clear_token s" x s'] by simp
  have e: "on_error env err s = (x, s') \<Longrightarrow> one_task s \<Longrightarrow> one_task s'" for err s x s'
    by (rule one_task_on_error)
  show ?thesis
    using assms
    unfolding send_authorized_def Let_def
    by (auto split: prod.splits sum.splits error.splits if_splits dest: d a e)
qed

lemma one_task_request:
  assumes "request env method returns url data json login_request st = (r, st')"
    and "one_task st"
  shows "one_task st'"
  using assms
  by (auto simp: request_def record_main_def split: option.splits prod.splits sum.splits
      if_splits
      dest: one_task_harvest one_task_check_token one_task_send_authorized)

lemma one_task_lock_step:
  assumes "lock_step env (l, cs, s) (l', cs', s')" and "one_task s"
  shows "one_task s'"
  using assms
  by (cases rule: lock_step.cases) (auto simp: serve_def dest: one_task_request)

lemma one_task_run:
  assumes "rtranclp (lock_step env) x y" and "one_task (snd (snd x))"
  shows "one_task (snd (snd y))"
  using assms
proof (induction rule: rtranclp_induct)
  case base
  then show ?case .
next
  case (step y z)
  then show ?case
    using one_task_lock_step [of env "fst y" "fst (snd y)" "snd (snd y)" "fst z" "fst (snd z)"
        "snd (snd z)"]
    by simp
qed

subsection \<open>A call that needs no authentication\<close>

lemma loop_no_401:
  assumes "\<forall>n. fst (ws n) \<noteq> ResponseFailed 401" and "e \<noteq> Some (ClientResponseError 401)"
  shows "fst (u_send_request_loop ws rq i a e) \<noteq> Inl (ClientResponseError 401)"
  using assms
proof (induction ws rq i a e rule: u_send_request_loop.induct)
  case (1 ws rq i attempt resp_exc)
  show ?case
  proof (cases "attempt < DEFAULT_REQUEST_RETRIES")
    case False
    then show ?thesis
      using 1(4) by (auto simp: loop_done split: option.splits)
  next
    case True
    show ?thesis
    proof (cases "retryable (fst (ws i))")
      case False
      then show ?thesis
        using True 1(3) by (cases "fst (ws i)") (auto simp: loop_final)
    next
      case r: True
      show ?thesis
      proof (cases "fst (ws i)")
        case (Responded b)
        then show ?thesis using r by simp
      next
        case (ResponseFailed status)
        then have s: "status \<noteq> 401" using r by simp
        have "fst (u_send_request_loop ws rq (i + 1) (attempt + 1) (Some (ClientResponseError status)))
            \<noteq> Inl (ClientResponseError 401)"
          using 1(1) [OF True refl refl refl refl ResponseFailed s] 1(3) s by simp
        then show ?thesis
          using loop_retry(1) [where ws = ws and i = i and a = attempt and rq = rq and e = resp_exc, OF True r] ResponseFailed by simp
      next
        case ConnectionFailed
        have "fst (u_send_request_loop ws rq (i + 1) (attempt + 1) (Some ClientError))
            \<noteq> Inl (ClientResponseError 401)"
          using 1(2) [OF True refl refl refl refl ConnectionFailed] 1(3) by simp
        then show ?thesis
          using loop_retry(1) [where ws = ws and i = i and a = attempt and rq = rq and e = resp_exc, OF True r] ConnectionFailed by simp
      qed
    qed
  qed
qed


lemma getattr_no_401:
  assumes "\<forall>n. fst (ws n) \<noteq> ResponseFailed 401"
  shows "fst (getattr_snoorequests name ws rq i) \<noteq> Inl (ClientResponseError 401)"
  using loop_no_401 [OF assms, of None rq i 0]
  by (auto simp: getattr_snoorequests_def request_json_def request_response_def
      u_send_request_def split: prod.splits sum.splits option.splits)

lemma finish_task_idle: "authentication_task st = None \<Longrightarrow> finish_task env st = st"
  by (simp add: finish_task_def)

lemma harvest_idle: "authentication_task st = None \<Longrightarrow> harvest env st = (Inr (), st)"
  by (simp add: harvest_def)

lemma no_authentication_trans:
  "no_authentication a b \<Longrightarrow> no_authentication b c \<Longrightarrow> no_authentication a c"
  by (auto simp: no_authentication_def)

lemma dispatch_quiet:
  assumes "authentication_task st = None" and "dispatch env name rq st = (r, st')"
  shows "no_authentication st st'"
  using assms
  by (auto simp: dispatch_def finish_task_idle record_main_def no_authentication_def Let_def
      split: prod.splits)

lemma dispatch_no_401:
  assumes "\<forall>n. fst (main_session env n) \<noteq> ResponseFailed 401"
    and "dispatch env name rq st = (r, st')"
  shows "r \<noteq> Inl (ClientResponseError 401)"
proof -
  let ?st0 = "if background env (dispatches st) then finish_task env st else st"
  have "fst (getattr_snoorequests name (main_session env) rq (main_calls ?st0))
      \<noteq> Inl (ClientResponseError 401)"
    using assms(1) by (rule getattr_no_401)
  then show ?thesis
    using assms(2)
    by (auto simp: dispatch_def data_of_def Let_def split: prod.splits sum.splits option.splits)
qed

lemma on_error_quiet:
  "err \<noteq> ClientResponseError 401 \<Longrightarrow> on_error env err st = (r, st') \<Longrightarrow> st' = st"
  by (auto simp: on_error_def split: error.splits if_splits)

lemma send_authorized_quiet:
  assumes "\<forall>n. fst (main_session env n) \<noteq> ResponseFailed 401"
    and "authentication_task st = None"
    and "send_authorized env name method url data json st = (r, st')"
  shows "no_authentication st st'"
proof -
  let ?h = "\<lparr>s_method = method, s_url = url, s_authorization = fst (security_token st),
             s_data = data, s_json = json\<rparr>"
  obtain x s1 where d: "dispatch env name ?h st = (x, s1)"
    by (cases "dispatch env name ?h st") auto
  have q: "no_authentication st s1"
    using assms(2) d by (rule dispatch_quiet)
  have n: "x \<noteq> Inl (ClientResponseError 401)"
    using assms(1) d by (rule dispatch_no_401)
  show ?thesis
  proof (cases x)
    case (Inr v)
    then show ?thesis
      using assms(3) d q by (simp add: send_authorized_def Let_def)
  next
    case (Inl e)
    then have e: "e \<noteq> ClientResponseError 401" using n by simp
    have "on_error env e s1 = (r, st')"
      using assms(3) d Inl e
      by (cases e) (simp_all add: send_authorized_def Let_def)
    then have "st' = s1"
      using e by (rule on_error_quiet [rotated])
    then show ?thesis using q by simp
  qed
qed

lemma request_with_token:
  assumes "\<forall>n. fst (main_session env n) \<noteq> ResponseFailed 401"
    and "authentication_task st = None"
    and "security_token st = (Some tok, refresh_token, Some expiry, refreshed)"
    and "clock st < expiry"
    and "request env method returns url data json False st = (r, st')"
  shows "no_authentication st st'"
proof (cases "map_of REQUEST_METHODS returns")
  case None
  then show ?thesis
    using assms by (simp add: request_def no_authentication_def)
next
  case (Some name)
  have c: "check_token env st = (Inr (), st)"
    using assms(3,4) by (simp add: check_token_def)
  have "send_authorized env name method url data json st = (r, st')"
    using assms(5) Some c harvest_idle [OF assms(2)] by (simp add: request_def)
  then show ?thesis
    using assms(1,2) by (intro send_authorized_quiet)
qed

subsection \<open>The order of the callers\<close>

lemma lock_step_two:
  assumes "lock_step env (l, [p, q], s) z"
  shows "(\<not> l \<and> (\<exists>c. p = Waiting c \<and> z = (True, [Holding c, q], s)))
    \<or> (\<not> l \<and> (\<exists>c. q = Waiting c \<and> z = (True, [p, Holding c], s)))
    \<or> (l \<and> (\<exists>c r s'. p = Holding c \<and> serve env c s = (r, s') \<and> z = (False, [Returned r, q], s')))
    \<or> (l \<and> (\<exists>c r s'. q = Holding c \<and> serve env c s = (r, s') \<and> z = (False, [p, Returned r], s')))"
  using assms
  by (cases rule: lock_step.cases) (auto simp: less_Suc_eq)

lemma run_done:
  assumes "rtranclp (lock_step env) (l, [Returned x, Returned y], s) (l', [Returned ra, Returned rb], s')"
  shows "x = ra \<and> y = rb \<and> s = s'"
  using assms
  by (cases rule: converse_rtranclpE) (auto dest!: lock_step_two)

lemma run_holding_second:
  assumes "rtranclp (lock_step env) (True, [Returned x, Holding b], s) (l', [Returned ra, Returned rb], s')"
  shows "x = ra \<and> serve env b s = (rb, s')"
  using assms
  by (cases rule: converse_rtranclpE) (auto dest!: lock_step_two run_done)

lemma run_holding_first:
  assumes "rtranclp (lock_step env) (True, [Holding a, Returned y], s) (l', [Returned ra, Returned rb], s')"
  shows "y = rb \<and> serve env a s = (ra, s')"
  using assms
  by (cases rule: converse_rtranclpE) (auto dest!: lock_step_two run_done)

lemma run_waiting_second:
  assumes "rtranclp (lock_step env) (False, [Returned x, Waiting b], s) (l', [Returned ra, Returned rb], s')"
  shows "x = ra \<and> serve env b s = (rb, s')"
  using assms
  by (cases rule: converse_rtranclpE) (auto dest!: lock_step_two run_holding_second)

lemma run_waiting_first:
  assumes "rtranclp (lock_step env) (False, [Waiting a, Returned y], s) (l', [Returned ra, Returned rb], s')"
  shows "y = rb \<and> serve env a s = (ra, s')"
  using assms
  by (cases rule: converse_rtranclpE) (auto dest!: lock_step_two run_holding_first)

lemma run_first_holds:
  assumes "rtranclp (lock_step env) (True, [Holding a, Waiting b], s) (l', [Returned ra, Returned rb], s')"
  shows "\<exists>s1. serve env a s = (ra, s1) \<and> serve env b s1 = (rb, s')"
  using assms
  by (cases rule: converse_rtranclpE) (auto dest!: lock_step_two run_waiting_second)

lemma run_second_holds:
  assumes "rtranclp (lock_step env) (True, [Waiting a, Holding b], s) (l', [Returned ra, Returned rb], s')"
  shows "\<exists>s1. serve env b s = (rb, s1) \<and> serve env a s1 = (ra, s')"
  using assms
  by (cases rule: converse_rtranclpE) (auto dest!: lock_step_two run_waiting_first)

lemma two_callers:
  assumes "rtranclp (lock_step env) (False, [Waiting a, Waiting b], s) (l', [Returned ra, Returned rb], s')"
  shows "(\<exists>s1. serve env a s = (ra, s1) \<and> serve env b s1 = (rb, s'))
    \<or> (\<exists>s1. serve env b s = (rb, s1) \<and> serve env a s1 = (ra, s'))"
  using assms
  by (cases rule: converse_rtranclpE) (auto dest!: lock_step_two run_first_holds run_second_holds)

lemma lock_run:
  "rtranclp (lock_step env) (False, [Waiting a, Waiting b], st)
     (False, [Returned (fst (serve env a st)), Returned (fst (serve env b (snd (serve env a st))))],
      snd (serve env b (snd (serve env a st))))"
proof -
  let ?s1 = "snd (serve env a st)"
  have "lock_step env (False, [Waiting a, Waiting b], st) (True, [Holding a, Waiting b], st)"
    using acquire [of 0 "[Waiting a, Waiting b]" a env st] by simp
  moreover have "lock_step env (True, [Holding a, Waiting b], st)
      (False, [Returned (fst (serve env a st)), Waiting b], ?s1)"
    using release [of 0 "[Holding a, Waiting b]" a env st "fst (serve env a st)" ?s1] by simp
  moreover have "lock_step env (False, [Returned (fst (serve env a st)), Waiting b], ?s1)
      (True, [Returned (fst (serve env a st)), Holding b], ?s1)"
    using acquire [of 1 "[Returned (fst (serve env a st)), Waiting b]" b env ?s1] by simp
  moreover have "lock_step env (True, [Returned (fst (serve env a st)), Holding b], ?s1)
      (False, [Returned (fst (serve env a st)), Returned (fst (serve env b ?s1))],
       snd (serve env b ?s1))"
    using release [of 1 "[Returned (fst (serve env a st)), Holding b]" b env ?s1
        "fst (serve env b ?s1)" "snd (serve env b ?s1)"] by simp
  ultimately show ?thesis
    by (meson rtranclp.rtrancl_into_rtrancl rtranclp.rtrancl_refl)
qed



subsection \<open>The first caller through, and the second\<close>

lemma u_authenticate_slot:
  "u_authenticate env FreshLogin (st\<lparr>authentication_task := x, tasks := y\<rparr>) =
     (case u_authenticate env FreshLogin st of
        (r, s) \<Rightarrow> (r, s\<lparr>authentication_task := x, tasks := y\<rparr>))"
  by (simp add: u_authenticate_def u_api_authenticate_def Let_def
      split: cognito_reply.splits cognito_body.splits option.splits sum.splits)

lemma fresh_login_facts:
  assumes "u_authenticate env FreshLogin st = (outcome, s)"
  shows "cognito_calls s = cognito_calls st + 1 \<and> refresh_calls s = refresh_calls st \<and>
    username s = username st \<and> password s = password st \<and>
    invalid_credentials s = invalid_credentials st \<and> clock st \<le> clock s \<and>
    (outcome \<noteq> Inr () \<longrightarrow> security_token s = security_token st) \<and>
    (outcome = Inr () \<longrightarrow>
       (\<exists>tok rt e. security_token s = (Some tok, rt, Some e, Some (clock s))))"
  using assms
  by (auto simp: u_authenticate_def u_api_authenticate_def Let_def
      split: cognito_reply.splits cognito_body.splits option.splits sum.splits if_splits)

lemma authenticate_first:
  assumes "username st \<noteq> None" and "password st \<noteq> None" and "\<not> invalid_credentials st"
    and "authentication_task st = None"
    and "security_token st = (token, refresh_token, None, refreshed)"
    and "u_authenticate env FreshLogin st = (outcome, s)"
  shows "authenticate env True st =
    (case outcome of
       Inr u \<Rightarrow>
         (Inr None, s\<lparr>authentication_task := None, tasks := tasks st @ [Created, Ended]\<rparr>)
     | Inl e \<Rightarrow>
         if e = RequestError \<or> e = AuthenticationError
         then (Inl AuthenticationError,
               s\<lparr>authentication_task := None, tasks := tasks st @ [Created, Ended]\<rparr>)
         else (Inl e,
               s\<lparr>authentication_task := Some (Finished (Some e)),
                  tasks := tasks st @ [Created, Ended]\<rparr>))"
proof -
  have b: "u_authenticate_branch st = FreshLogin"
    using assms(5) by (simp add: u_authenticate_branch_def)
  have k: "tasks s = tasks st"
    using u_authenticate_keeps [OF assms(6)] by simp
  show ?thesis
    using assms(1-4) b k
    by (auto simp: authenticate_def finish_task_def u_authenticate_slot assms(6) Let_def
        split: sum.splits)
qed

lemma request_first:
  assumes "\<forall>n. fst (main_session env n) \<noteq> ResponseFailed 401"
    and "map_of REQUEST_METHODS returns \<noteq> None"
    and "username st \<noteq> None" and "password st \<noteq> None" and "\<not> invalid_credentials st"
    and "authentication_task st = None"
    and "security_token st = (None, refresh_token, None, refreshed)"
    and "u_authenticate env FreshLogin st = (outcome, s)"
    and "request env method returns url data json False st = (r, st')"
  shows "(outcome = Inr () \<longrightarrow>
            no_authentication
              (s\<lparr>authentication_task := None, tasks := tasks st @ [Created, Ended]\<rparr>) st')
    \<and> (outcome = Inl RequestError \<or> outcome = Inl AuthenticationError \<longrightarrow>
            r = Inl AuthenticationError \<and>
            st' = s\<lparr>authentication_task := None, tasks := tasks st @ [Created, Ended]\<rparr>)
    \<and> (\<forall>e. outcome = Inl e \<and> e \<noteq> RequestError \<and> e \<noteq> AuthenticationError \<longrightarrow>
            r = Inl e \<and>
            st' = s\<lparr>authentication_task := Some (Finished (Some e)),
                     tasks := tasks st @ [Created, Ended]\<rparr>)"
proof -
  obtain name where n: "map_of REQUEST_METHODS returns = Some name"
    using assms(2) by auto
  note a = authenticate_first [OF assms(3-6) assms(7) assms(8)]
  have h: "harvest env st = (Inr (), st)"
    using assms(6) by (rule harvest_idle)
  show ?thesis
  proof (cases outcome)
    case (Inr u)
    let ?s = "s\<lparr>authentication_task := None, tasks := tasks st @ [Created, Ended]\<rparr>"
    have c: "check_token env st = (Inr (), ?s)"
      using assms(7) a Inr by (simp add: check_token_def)
    have "send_authorized env name method url data json ?s = (r, st')"
      using assms(9) n c h by (simp add: request_def)
    then have "no_authentication ?s st'"
      using assms(1) by (intro send_authorized_quiet) simp_all
    then show ?thesis using Inr by simp
  next
    case (Inl e)
    show ?thesis
    proof (cases "e = RequestError \<or> e = AuthenticationError")
      case True
      have c: "check_token env st =
          (Inl AuthenticationError,
           s\<lparr>authentication_task := None, tasks := tasks st @ [Created, Ended]\<rparr>)"
        using assms(7) a Inl True by (simp add: check_token_def)
      show ?thesis
        using assms(9) n c h Inl True by (auto simp: request_def)
    next
      case False
      have c: "check_token env st =
          (Inl e,
           s\<lparr>authentication_task := Some (Finished (Some e)),
              tasks := tasks st @ [Created, Ended]\<rparr>)"
        using assms(7) a Inl False by (simp add: check_token_def)
      show ?thesis
        using assms(9) n c h Inl False by (auto simp: request_def)
    qed
  qed
qed

lemma request_tokenless:
  assumes "\<forall>n. fst (main_session env n) \<noteq> ResponseFailed 401"
    and "map_of REQUEST_METHODS returns \<noteq> None"
    and "username st \<noteq> None" and "password st \<noteq> None" and "\<not> invalid_credentials st"
    and "authentication_task st = None"
    and "security_token st = (None, refresh_token, None, refreshed)"
    and "request env method returns url data json False st = (r, st')"
  shows "cognito_calls st' = cognito_calls st + 1 \<and> refresh_calls st' = refresh_calls st \<and>
    tasks st' = tasks st @ [Created, Ended]"
proof -
  obtain outcome s where u: "u_authenticate env FreshLogin st = (outcome, s)"
    by (cases "u_authenticate env FreshLogin st") auto
  note f = fresh_login_facts [OF u]
  note q = request_first [OF assms(1-7) u assms(8)]
  show ?thesis
  proof (cases outcome)
    case (Inr v)
    then show ?thesis using q f by (simp add: no_authentication_def)
  next
    case (Inl e)
    then show ?thesis
      using q f by (cases "e = RequestError \<or> e = AuthenticationError") auto
  qed
qed

lemma request_after_exception:
  assumes "map_of REQUEST_METHODS returns \<noteq> None"
    and "username st \<noteq> None" and "password st \<noteq> None" and "\<not> invalid_credentials st"
    and "authentication_task st = Some (Finished (Some e))"
    and "e \<noteq> RequestError" and "e \<noteq> AuthenticationError"
  shows "request env method returns url data json False st =
    (Inl e, st\<lparr>authentication_task := None\<rparr>)"
proof -
  obtain name where n: "map_of REQUEST_METHODS returns = Some name"
    using assms(1) by auto
  have "authenticate env False st = (Inr (Some (Finished (Some e))), st)"
    using assms(2-5) by (simp add: authenticate_def)
  then have "harvest env st = (Inl e, st\<lparr>authentication_task := None\<rparr>)"
    using assms(5-7) by (simp add: harvest_def)
  then show ?thesis
    using n by (simp add: request_def)
qed

lemma one_after_the_other:
  assumes "serve env a st = (ra, s1)" and "serve env b s1 = (rb, s)"
    and "map_of REQUEST_METHODS (c_returns a) \<noteq> None"
    and "map_of REQUEST_METHODS (c_returns b) \<noteq> None"
    and "username st \<noteq> None" and "password st \<noteq> None" and "\<not> invalid_credentials st"
    and "authentication_task st = None"
    and "security_token st = (None, refresh_token, None, refreshed)"
    and "\<forall>n. fst (main_session env n) \<noteq> ResponseFailed 401"
    and "u_authenticate env FreshLogin st = (outcome, logged_in)"
  shows "(outcome = Inr () \<and> fst (snd (snd (security_token logged_in))) = Some expiry \<and>
          clock s < expiry \<longrightarrow>
            cognito_calls s = cognito_calls st + 1 \<and> refresh_calls s = refresh_calls st \<and>
            tasks s = tasks st @ [Created, Ended] \<and> authentication_task s = None \<and>
            security_token s = security_token logged_in)
    \<and> (outcome = Inl RequestError \<or> outcome = Inl AuthenticationError \<longrightarrow>
          cognito_calls s = cognito_calls st + 2 \<and> refresh_calls s = refresh_calls st \<and>
          tasks s = tasks st @ [Created, Ended, Created, Ended])
    \<and> (\<forall>e. outcome = Inl e \<and> e \<noteq> RequestError \<and> e \<noteq> AuthenticationError \<longrightarrow>
          cognito_calls s = cognito_calls st + 1 \<and> refresh_calls s = refresh_calls st \<and>
          tasks s = tasks st @ [Created, Ended] \<and> authentication_task s = None \<and>
          ra = Inl e \<and> rb = Inl e)"
proof (intro conjI impI allI)
  note f = fresh_login_facts [OF assms(11)]
  note q = request_first [OF assms(10,3,5-9,11) assms(1) [unfolded serve_def]]
  note b = assms(2) [unfolded serve_def]
  {
    assume h: "outcome = Inr () \<and> fst (snd (snd (security_token logged_in))) = Some expiry \<and>
          clock s < expiry"
    let ?s = "logged_in\<lparr>authentication_task := None, tasks := tasks st @ [Created, Ended]\<rparr>"
    have 1: "no_authentication ?s s1" using q h by simp
    from f h obtain tok rt where t: "security_token logged_in = (Some tok, rt, Some expiry, Some (clock logged_in))"
      by auto
    have "gateway_step (\<lambda>r. True) s1 s"
      using b by (rule gateway_step_mono [OF gateway_step_request]) simp
    then have "clock s1 \<le> clock s"
      by (simp add: gateway_step_def)
    then have 2: "clock s1 < expiry" using h by simp
    have 3: "security_token s1 = (Some tok, rt, Some expiry, Some (clock logged_in))"
      "authentication_task s1 = None"
      using 1 t by (simp_all add: no_authentication_def)
    have 4: "no_authentication s1 s"
      using assms(10) 3(2) 3(1) 2 b by (rule request_with_token)
    show "cognito_calls s = cognito_calls st + 1" "refresh_calls s = refresh_calls st"
      "tasks s = tasks st @ [Created, Ended]" "authentication_task s = None"
      "security_token s = security_token logged_in"
      using 1 4 f by (simp_all add: no_authentication_def)
  }
  {
    assume h: "outcome = Inl RequestError \<or> outcome = Inl AuthenticationError"
    then have 1: "s1 = logged_in\<lparr>authentication_task := None, tasks := tasks st @ [Created, Ended]\<rparr>"
      using q by blast
    have n: "outcome \<noteq> Inr ()" using h by auto
    have 2: "cognito_calls s = cognito_calls s1 + 1 \<and> refresh_calls s = refresh_calls s1 \<and>
      tasks s = tasks s1 @ [Created, Ended]"
      using assms(10,4) _ _ _ _ _ b
    proof (rule request_tokenless)
      show "username s1 \<noteq> None" "password s1 \<noteq> None" "\<not> invalid_credentials s1"
        "authentication_task s1 = None"
        using 1 f assms(5-7) by simp_all
      show "security_token s1 = (None, refresh_token, None, refreshed)"
        using 1 f n assms(9) by simp
    qed
    show "cognito_calls s = cognito_calls st + 2" "refresh_calls s = refresh_calls st"
      "tasks s = tasks st @ [Created, Ended, Created, Ended]"
      using 1 2 f by simp_all
  }
  {
    fix e
    assume h: "outcome = Inl e \<and> e \<noteq> RequestError \<and> e \<noteq> AuthenticationError"
    then have 1: "ra = Inl e"
      "s1 = logged_in\<lparr>authentication_task := Some (Finished (Some e)),
                 tasks := tasks st @ [Created, Ended]\<rparr>"
      using q by blast+
    have "request env (c_method b) (c_returns b) (c_url b) (c_data b) (c_json b) False s1 =
        (Inl e, s1\<lparr>authentication_task := None\<rparr>)"
      using assms(4) _ _ _ _ conjunct1 [OF conjunct2 [OF h]] conjunct2 [OF conjunct2 [OF h]]
    proof (rule request_after_exception)
      show "username s1 \<noteq> None" "password s1 \<noteq> None" "\<not> invalid_credentials s1"
        "authentication_task s1 = Some (Finished (Some e))"
        using 1 f assms(5-7) by simp_all
    qed
    then have 2: "rb = Inl e" "s = s1\<lparr>authentication_task := None\<rparr>"
      using b by simp_all
    show "cognito_calls s = cognito_calls st + 1" "refresh_calls s = refresh_calls st"
      "tasks s = tasks st @ [Created, Ended]" "authentication_task s = None"
      "ra = Inl e" "rb = Inl e"
      using 1 2 f by simp_all
  }
qed


text \<open>
  C3 (as amended). Two callers invoke the gateway at the same time. The lock lets them
  through one at a time, in either order, and in every configuration that they pass
  through at most one authentication task has been under way at any time: tasks are
  created and end in turn. When the client has its credentials, no token and no task,
  and the service answers no call with 401, the number of authentication calls that the
  two callers have made when both have returned depends on the login of the first one
  through. If it succeeds and both callers have returned before the token is due, one
  call is made, by one task: the second caller finds the token and starts no task. If
  it fails with a request or an authentication error, the task is taken out of the slot
  and the second caller makes a login call of its own: two calls, by two tasks. If it
  ends in another exception, the task that has ended stays in the slot, the second
  caller takes it out and raises its exception without a call: one call, and both
  callers get that exception.
\<close>

theorem single_login:
  assumes "rtranclp (lock_step env) (False, [Waiting a, Waiting b], st) (locked, cs, s)"
    and "one_task st"
  shows "one_task s
    \<and> (cs = [Returned ra, Returned rb]
       \<and> map_of REQUEST_METHODS (c_returns a) \<noteq> None
       \<and> map_of REQUEST_METHODS (c_returns b) \<noteq> None
       \<and> username st \<noteq> None \<and> password st \<noteq> None \<and> \<not> invalid_credentials st
       \<and> authentication_task st = None
       \<and> security_token st = (None, refresh_token, None, refreshed)
       \<and> (\<forall>n. fst (main_session env n) \<noteq> ResponseFailed 401)
       \<and> u_authenticate env FreshLogin st = (outcome, logged_in)
       \<longrightarrow>
         (outcome = Inr () \<and> fst (snd (snd (security_token logged_in))) = Some expiry \<and>
          clock s < expiry \<longrightarrow>
            cognito_calls s = cognito_calls st + 1 \<and> refresh_calls s = refresh_calls st \<and>
            tasks s = tasks st @ [Created, Ended] \<and> authentication_task s = None \<and>
            security_token s = security_token logged_in)
       \<and> (outcome = Inl RequestError \<or> outcome = Inl AuthenticationError \<longrightarrow>
            cognito_calls s = cognito_calls st + 2 \<and> refresh_calls s = refresh_calls st \<and>
            tasks s = tasks st @ [Created, Ended, Created, Ended])
       \<and> (\<forall>e. outcome = Inl e \<and> e \<noteq> RequestError \<and> e \<noteq> AuthenticationError \<longrightarrow>
            cognito_calls s = cognito_calls st + 1 \<and> refresh_calls s = refresh_calls st \<and>
            tasks s = tasks st @ [Created, Ended] \<and> authentication_task s = None \<and>
            ra = Inl e \<and> rb = Inl e))"
proof (rule conjI)
  show "one_task s"
    using one_task_run [OF assms(1)] assms(2) by simp
next
  show "cs = [Returned ra, Returned rb]
       \<and> map_of REQUEST_METHODS (c_returns a) \<noteq> None
       \<and> map_of REQUEST_METHODS (c_returns b) \<noteq> None
       \<and> username st \<noteq> None \<and> password st \<noteq> None \<and> \<not> invalid_credentials st
       \<and> authentication_task st = None
       \<and> security_token st = (None, refresh_token, None, refreshed)
       \<and> (\<forall>n. fst (main_session env n) \<noteq> ResponseFailed 401)
       \<and> u_authenticate env FreshLogin st = (outcome, logged_in)
       \<longrightarrow>
         (outcome = Inr () \<and> fst (snd (snd (security_token logged_in))) = Some expiry \<and>
          clock s < expiry \<longrightarrow>
            cognito_calls s = cognito_calls st + 1 \<and> refresh_calls s = refresh_calls st \<and>
            tasks s = tasks st @ [Created, Ended] \<and> authentication_task s = None \<and>
            security_token s = security_token logged_in)
       \<and> (outcome = Inl RequestError \<or> outcome = Inl AuthenticationError \<longrightarrow>
            cognito_calls s = cognito_calls st + 2 \<and> refresh_calls s = refresh_calls st \<and>
            tasks s = tasks st @ [Created, Ended, Created, Ended])
       \<and> (\<forall>e. outcome = Inl e \<and> e \<noteq> RequestError \<and> e \<noteq> AuthenticationError \<longrightarrow>
            cognito_calls s = cognito_calls st + 1 \<and> refresh_calls s = refresh_calls st \<and>
            tasks s = tasks st @ [Created, Ended] \<and> authentication_task s = None \<and>
            ra = Inl e \<and> rb = Inl e)"
  proof (rule impI)
  assume h: "cs = [Returned ra, Returned rb]
       \<and> map_of REQUEST_METHODS (c_returns a) \<noteq> None
       \<and> map_of REQUEST_METHODS (c_returns b) \<noteq> None
       \<and> username st \<noteq> None \<and> password st \<noteq> None \<and> \<not> invalid_credentials st
       \<and> authentication_task st = None
       \<and> security_token st = (None, refresh_token, None, refreshed)
       \<and> (\<forall>n. fst (main_session env n) \<noteq> ResponseFailed 401)
       \<and> u_authenticate env FreshLogin st = (outcome, logged_in)"
  then have run: "rtranclp (lock_step env) (False, [Waiting a, Waiting b], st)
      (locked, [Returned ra, Returned rb], s)"
    using assms(1) by simp
  from two_callers [OF run] consider
      s1 where "serve env a st = (ra, s1)" "serve env b s1 = (rb, s)"
    | s1 where "serve env b st = (rb, s1)" "serve env a s1 = (ra, s)"
    by blast
  then have "(outcome = Inr () \<and> fst (snd (snd (security_token logged_in))) = Some expiry \<and>
          clock s < expiry \<longrightarrow>
            cognito_calls s = cognito_calls st + 1 \<and> refresh_calls s = refresh_calls st \<and>
            tasks s = tasks st @ [Created, Ended] \<and> authentication_task s = None \<and>
            security_token s = security_token logged_in)
       \<and> (outcome = Inl RequestError \<or> outcome = Inl AuthenticationError \<longrightarrow>
            cognito_calls s = cognito_calls st + 2 \<and> refresh_calls s = refresh_calls st \<and>
            tasks s = tasks st @ [Created, Ended, Created, Ended])
       \<and> (\<forall>e. outcome = Inl e \<and> e \<noteq> RequestError \<and> e \<noteq> AuthenticationError \<longrightarrow>
            cognito_calls s = cognito_calls st + 1 \<and> refresh_calls s = refresh_calls st \<and>
            tasks s = tasks st @ [Created, Ended] \<and> authentication_task s = None \<and>
            ra = Inl e \<and> rb = Inl e)"
  proof cases
    case 1
    show ?thesis
      using 1 h one_after_the_other [of env a st ra s1 b rb s refresh_token refreshed outcome
          logged_in expiry]
      by blast
  next
    case 2
    show ?thesis
      using 2 h one_after_the_other [of env b st rb s1 a ra s refresh_token refreshed outcome
          logged_in expiry]
      by blast
  qed
  then show "(outcome = Inr () \<and> fst (snd (snd (security_token logged_in))) = Some expiry \<and>
          clock s < expiry \<longrightarrow>
            cognito_calls s = cognito_calls st + 1 \<and> refresh_calls s = refresh_calls st \<and>
            tasks s = tasks st @ [Created, Ended] \<and> authentication_task s = None \<and>
            security_token s = security_token logged_in)
       \<and> (outcome = Inl RequestError \<or> outcome = Inl AuthenticationError \<longrightarrow>
            cognito_calls s = cognito_calls st + 2 \<and> refresh_calls s = refresh_calls st \<and>
            tasks s = tasks st @ [Created, Ended, Created, Ended])
       \<and> (\<forall>e. outcome = Inl e \<and> e \<noteq> RequestError \<and> e \<noteq> AuthenticationError \<longrightarrow>
            cognito_calls s = cognito_calls st + 1 \<and> refresh_calls s = refresh_calls st \<and>
            tasks s = tasks st @ [Created, Ended] \<and> authentication_task s = None \<and>
            ra = Inl e \<and> rb = Inl e)" .
  qed
qed

lemma guest_facts:
  "one_task guest" "username guest \<noteq> None" "password guest \<noteq> None"
  "\<not> invalid_credentials guest" "authentication_task guest = None"
  "security_token guest = (None, None, None, None)"
  "map_of REQUEST_METHODS (c_returns session_call) \<noteq> None"
  "cognito_calls guest = 0" "refresh_calls guest = 0" "tasks guest = []"
  by (simp_all add: guest_def init_def one_task_def under_way_def session_call_def
      REQUEST_METHODS_def)

lemma logins:
  "u_authenticate service FreshLogin guest =
     (Inr (), guest\<lparr>trace := [CognitoPosted (Some ''ann'') (Some ''secret'')], clock := 1000,
                   cognito_calls := 1,
                   security_token := (Some ''Bearer id1'', Some ''r1'', Some 5400001000,
                                      Some 1000)\<rparr>)"
  "u_authenticate offline FreshLogin guest =
     (Inl RequestError,
      guest\<lparr>trace := [CognitoPosted (Some ''ann'') (Some ''secret'')], cognito_calls := 1\<rparr>)"
  "u_authenticate garbled FreshLogin guest =
     (Inl ValueError,
      guest\<lparr>trace := [CognitoPosted (Some ''ann'') (Some ''secret'')], clock := 1000,
            cognito_calls := 1\<rparr>)"
  by (simp_all add: service_def offline_def garbled_def guest_def init_def credential_defs
      Let_def)

lemma never_401:
  "\<forall>n. fst (main_session service n) \<noteq> ResponseFailed 401"
  "\<forall>n. fst (main_session offline n) \<noteq> ResponseFailed 401"
  "\<forall>n. fst (main_session garbled n) \<noteq> ResponseFailed 401"
  by (simp_all add: service_def offline_def garbled_def)

lemma served_in_time: "clock (after_both service) = 3000"
  by (simp add: after_both_def serve_def session_call_def guest_def service_def init_def
      transport_defs credential_defs gateway_defs Let_def)

theorem single_login_witness:
  "one_task (after_both service) \<and> cognito_calls (after_both service) = 1
   \<and> refresh_calls (after_both service) = 0 \<and> tasks (after_both service) = [Created, Ended]
   \<and> cognito_calls (after_both offline) = 2
   \<and> tasks (after_both offline) = [Created, Ended, Created, Ended]
   \<and> cognito_calls (after_both garbled) = 1 \<and> tasks (after_both garbled) = [Created, Ended]
   \<and> fst (serve garbled session_call guest) = Inl ValueError
   \<and> fst (serve garbled session_call (snd (serve garbled session_call guest))) = Inl ValueError"
proof -
  note 1 = single_login [OF lock_run [of service session_call session_call guest] guest_facts(1),
      where refresh_token = None and refreshed = None and outcome = "Inr ()"
        and expiry = 5400001000, folded after_both_def]
  note 2 = single_login [OF lock_run [of offline session_call session_call guest] guest_facts(1),
      where refresh_token = None and refreshed = None and outcome = "Inl RequestError",
      folded after_both_def]
  note 3 = single_login [OF lock_run [of garbled session_call session_call guest] guest_facts(1),
      where refresh_token = None and refreshed = None and outcome = "Inl ValueError"
        and ra = "fst (serve garbled session_call guest)"
        and rb = "fst (serve garbled session_call (snd (serve garbled session_call guest)))",
      folded after_both_def]
  have a: "one_task (after_both service) \<and> cognito_calls (after_both service) = 1
   \<and> refresh_calls (after_both service) = 0 \<and> tasks (after_both service) = [Created, Ended]"
    using 1 guest_facts logins(1) never_401(1) served_in_time by simp
  have b: "cognito_calls (after_both offline) = 2
   \<and> tasks (after_both offline) = [Created, Ended, Created, Ended]"
    using 2 guest_facts logins(2) never_401(2) by simp
  have c: "cognito_calls (after_both garbled) = 1 \<and> tasks (after_both garbled) = [Created, Ended]
   \<and> fst (serve garbled session_call guest) = Inl ValueError
   \<and> fst (serve garbled session_call (snd (serve garbled session_call guest))) = Inl ValueError"
    using 3 guest_facts logins(3) never_401(3) by simp
  show ?thesis
    using a b c by blast
qed

lemma guest_refused:
  "serve offline session_call guest =
     (Inl AuthenticationError,
      guest\<lparr>trace := [CognitoPosted (Some ''ann'') (Some ''secret'')], cognito_calls := 1,
            tasks := [Created, Ended]\<rparr>)"
  by (simp add: serve_def session_call_def guest_def offline_def init_def transport_defs
      credential_defs gateway_defs Let_def)

lemma guest_refused_again:
  "serve offline session_call (snd (serve offline session_call guest)) =
     (Inl AuthenticationError,
      guest\<lparr>trace := [CognitoPosted (Some ''ann'') (Some ''secret''),
                       CognitoPosted (Some ''ann'') (Some ''secret'')],
            cognito_calls := 2, tasks := [Created, Ended, Created, Ended]\<rparr>)"
  unfolding guest_refused
  by (simp add: serve_def session_call_def guest_def offline_def init_def transport_defs
      credential_defs gateway_defs Let_def)

text \<open>
  C3, as the specification has it, has one authentication call for the two callers in
  every case. When the identity provider cannot be reached, the first caller's login
  fails and its task is gone when the second caller gets the lock, so the second caller
  makes a login call of its own: two calls in all, and both callers get an
  \<open>AuthenticationError\<close>.
\<close>

theorem second_login_counterexample:
  "rtranclp (lock_step offline) (False, [Waiting session_call, Waiting session_call], guest)
     (False, [Returned (Inl AuthenticationError), Returned (Inl AuthenticationError)],
      guest\<lparr>trace := [CognitoPosted (Some ''ann'') (Some ''secret''),
                       CognitoPosted (Some ''ann'') (Some ''secret'')],
            cognito_calls := 2, tasks := [Created, Ended, Created, Ended]\<rparr>)
   \<and> fst (security_token guest) = None \<and> authentication_task guest = None"
  using lock_run [of offline session_call session_call guest, unfolded guest_refused_again,
      unfolded guest_refused fst_conv snd_conv]
  by (simp add: guest_def init_def)

end
